theory Spec2Isabelle
  imports Complex_Main "HOL-Library.Multiset"
begin

section \<open>Mischwald scorer: data model\<close>

text \<open>
  Shallow embedding of \<^verbatim>\<open>src/mischwald/scorer.ts\<close>. JavaScript numbers that carry
  geometry are modelled as \<^typ>\<open>real\<close>; match counts are \<^typ>\<open>nat\<close>; configured amounts,
  thresholds and awarded points are \<^typ>\<open>int\<close>. Objects that the source compares or keys
  by reference (boxes, card instances) carry an explicit reference \<open>boxRef\<close>, made of
  the player's index and the index of the detected card in that player's input, which is
  where \<open>score\<close> allocates the box and \<open>buildForest\<close> allocates its single instance.
  The bundled table \<^verbatim>\<open>cards.json\<close> is a parameter of type \<open>CardsJson\<close>.

  The arithmetic on coordinates is exact where the source computes in binary64: the two
  agree on a comparison unless its sides differ by less than a rounding error. Amounts and
  points are integers with exact arithmetic, printed in full: the source agrees below
  \<open>2\<^sup>5\<^sup>3\<close> in magnitude, where its products and sums are exact and its texts have no
  exponent. The general theorems on the layout below depend on the value of no gap: they
  use the references of the attached cards only, or the sign of a difference of two
  coordinates; the example layouts keep every gap far from its threshold.
\<close>

datatype ObjRef = Ref nat nat

record ConditionJson =
  name :: "string list option"
  tags :: "string list option"
  ctype :: "string option"
  unique :: bool
  sameTree :: bool
  sameTreeSymbol :: bool
  fullTree :: bool
  most :: bool
  sameSpot :: bool
  position :: "string list option"

datatype ScoreAmount = Scalar int | Table "int list"

record ScoreJson =
  stype :: string
  amount :: "ScoreAmount option"
  smin :: "int option"
  condition :: "ConditionJson option"

record JokerJson =
  jtype :: string

record CardDef =
  def_id :: string
  def_tags :: "string list"
  def_type :: "string option"
  def_score :: "ScoreJson option"
  joker :: "JokerJson option"

record CardsJson =
  cards :: "CardDef list"

datatype Side = STop | SBottom | SLeft | SRight

record Box =
  x1 :: real
  y1 :: real
  x2 :: real
  y2 :: real
  cx :: real
  cy :: real
  w :: real
  h :: real
  clsName :: string
  boxRef :: ObjRef

record CardInstance =
  box :: Box
  inst_id :: string
  treeSymbol :: string
  defn :: "CardDef option"

record Tree =
  tree_card :: CardInstance
  tree_top :: "CardInstance list"
  tree_left :: "CardInstance list"
  tree_right :: "CardInstance list"
  tree_bottom :: "CardInstance list"

record Forest =
  trees :: "Tree list"

record Placement =
  p_tree :: Tree
  p_side :: "Side option"

record PlacementCandidate =
  cand_tree :: CardInstance
  cand_side :: Side
  cand_dist :: real
  cand_overlap :: real

record DetectedCard =
  cardId :: string
  similarity :: real
  d_x1 :: real
  d_y1 :: real
  d_x2 :: real
  d_y2 :: real
  d_cx :: real
  d_cy :: real
  d_w :: real
  d_h :: real

record PlayerInput =
  pname :: string
  pcards :: "DetectedCard list"

record CardScoreDetail =
  det_cardId :: string
  points :: int
  reason :: string
  title :: "string option"
  group :: "string option"

record PlayerScoreResult =
  res_name :: string
  totalScore :: int
  cardDetails :: "CardScoreDetail list"

text \<open>Reference identity of an instance: that of its box.\<close>

definition iref :: "CardInstance \<Rightarrow> ObjRef" where
  "iref c = boxRef (box c)"

definition memRef :: "CardInstance \<Rightarrow> CardInstance list \<Rightarrow> bool" where
  "memRef c xs = (iref c \<in> set (map iref xs))"

section \<open>Constants\<close>

definition ADJACENT_EPSILON :: real where "ADJACENT_EPSILON = 1 / 1000"
definition SIDE_OVERLAP_TOLERANCE :: real where "SIDE_OVERLAP_TOLERANCE = 2 / 1000"
definition MIN_PERP_OVERLAP_RATIO :: real where "MIN_PERP_OVERLAP_RATIO = 20 / 100"
definition MAX_SIDE_GAP_RATIO :: real where "MAX_SIDE_GAP_RATIO = 50 / 100"

section \<open>Score table\<close>

definition scoreTableIndex :: "int list \<Rightarrow> int \<Rightarrow> int" where
  "scoreTableIndex pts cnt =
     (if length pts = 0 then 0
      else pts ! nat (max 0 (min (int (length pts) - 1) (cnt - 1))))"

section \<open>Strings\<close>

text \<open>
  Strings are lists of 8-bit characters standing for the code units of the source's
  strings; \<open>toLowerCase\<close> is modelled on the ASCII letters, and the default
  \<open>Array.prototype.sort\<close> of strings as a stable insertion sort by code unit.
\<close>

definition digits :: string where
  "digits = ''0123456789''"

fun showNat :: "nat \<Rightarrow> string" where
  "showNat n =
     (if n < 10 then [digits ! n]
      else showNat (n div 10) @ [digits ! (n mod 10)])"

declare showNat.simps [simp del]

definition showInt :: "int \<Rightarrow> string" where
  "showInt i = (if i < 0 then CHR ''-'' # showNat (nat (- i)) else showNat (nat i))"

definition showBool :: "bool \<Rightarrow> string" where
  "showBool b = (if b then ''true'' else ''false'')"

definition toLowerChar :: "char \<Rightarrow> char" where
  "toLowerChar c =
     (case map_of (zip ''ABCDEFGHIJKLMNOPQRSTUVWXYZ'' ''abcdefghijklmnopqrstuvwxyz'') c of
        None \<Rightarrow> c
      | Some l \<Rightarrow> l)"

definition toLowerCase :: "string \<Rightarrow> string" where
  "toLowerCase s = map toLowerChar s"

fun joinWith :: "string \<Rightarrow> string list \<Rightarrow> string" where
  "joinWith sep [] = []"
| "joinWith sep [x] = x"
| "joinWith sep (x # y # ys) = x @ sep @ joinWith sep (y # ys)"

fun splitOn :: "char \<Rightarrow> string \<Rightarrow> string list" where
  "splitOn sep [] = [[]]"
| "splitOn sep (c # cs) =
     (if c = sep then [] # splitOn sep cs
      else (case splitOn sep cs of [] \<Rightarrow> [[c]] | x # xs \<Rightarrow> (c # x) # xs))"

fun strLess :: "string \<Rightarrow> string \<Rightarrow> bool" where
  "strLess [] [] = False"
| "strLess [] (y # ys) = True"
| "strLess (x # xs) [] = False"
| "strLess (x # xs) (y # ys) =
     ((of_char x :: nat) < of_char y \<or> (x = y \<and> strLess xs ys))"

fun insertStr :: "string \<Rightarrow> string list \<Rightarrow> string list" where
  "insertStr x [] = [x]"
| "insertStr x (y # ys) = (if strLess y x then y # insertStr x ys else x # y # ys)"

definition sortStrings :: "string list \<Rightarrow> string list" where
  "sortStrings xs = foldr insertStr xs []"

fun indexOf :: "string \<Rightarrow> char \<Rightarrow> nat option" where
  "indexOf [] c = None"
| "indexOf (x # xs) c = (if x = c then Some 0 else map_option Suc (indexOf xs c))"

definition isWhiteSpace :: "char \<Rightarrow> bool" where
  "isWhiteSpace c = ((of_char c :: nat) \<in> {9, 10, 11, 12, 13, 32, 160})"

definition trim :: "string \<Rightarrow> string" where
  "trim s = rev (dropWhile isWhiteSpace (rev (dropWhile isWhiteSpace s)))"

section \<open>Geometry helpers\<close>

definition overlapH :: "Box \<Rightarrow> Box \<Rightarrow> real" where
  "overlapH a b = max 0 (min (x2 a) (x2 b) - max (x1 a) (x1 b))"

definition overlapV :: "Box \<Rightarrow> Box \<Rightarrow> real" where
  "overlapV a b = max 0 (min (y2 a) (y2 b) - max (y1 a) (y1 b))"

section \<open>Condition evaluation\<close>

definition isFullTree :: "Tree \<Rightarrow> bool" where
  "isFullTree tree =
     (length (tree_top tree) > 0 \<and> length (tree_left tree) > 0 \<and>
      length (tree_bottom tree) > 0 \<and> length (tree_right tree) > 0)"

definition matchesAnyTag :: "CardInstance \<Rightarrow> string list \<Rightarrow> bool" where
  "matchesAnyTag inst tgs =
     (let cardTags = (case defn inst of None \<Rightarrow> [] | Some d \<Rightarrow> def_tags d)
      in list_ex (\<lambda>t. t \<in> set cardTags) tgs)"

text \<open>\<open>inst.definition?.joker?.type === type\<close> for a type that is not null.\<close>

definition jokerTypeIs :: "CardInstance \<Rightarrow> string \<Rightarrow> bool" where
  "jokerTypeIs inst t =
     (case defn inst of None \<Rightarrow> False
      | Some d \<Rightarrow> (case joker d of None \<Rightarrow> False | Some j \<Rightarrow> jtype j = t))"

text \<open>\<open>type == null || type === inst.definition?.type\<close>.\<close>

definition typeOk :: "string option \<Rightarrow> CardInstance \<Rightarrow> bool" where
  "typeOk ty inst =
     (case ty of None \<Rightarrow> True
      | Some t \<Rightarrow> (case defn inst of None \<Rightarrow> False | Some d \<Rightarrow> def_type d = Some t))"

text \<open>\<open>!m.definition?.joker\<close>.\<close>

definition noJoker :: "CardInstance \<Rightarrow> bool" where
  "noJoker m = (case defn m of None \<Rightarrow> True | Some d \<Rightarrow> joker d = None)"

definition filterCards :: "CardInstance \<Rightarrow> CardInstance list \<Rightarrow> ConditionJson \<Rightarrow> CardInstance list" where
  "filterCards self candidates cond =
     (let ids = name cond;
          tgs = tags cond;
          ty = ctype cond;
          sym = (if sameTreeSymbol cond then Some (treeSymbol self) else None)
      in filter (\<lambda>inst.
           if (case ty of None \<Rightarrow> False | Some t \<Rightarrow> jokerTypeIs inst t) then True
           else
             let idOk = (case ids of None \<Rightarrow> True | Some l \<Rightarrow> inst_id inst \<in> set l);
                 tagsOk = (case tgs of None \<Rightarrow> True | Some l \<Rightarrow> matchesAnyTag inst l);
                 tyOk = typeOk ty inst;
                 symOk = (case sym of None \<Rightarrow> True | Some sy \<Rightarrow> sy = treeSymbol inst)
             in idOk \<and> tagsOk \<and> tyOk \<and> symOk) candidates)"

text \<open>The size of \<open>new Set(matching.filter(m => !m.definition?.joker).map(m => m.id))\<close>.\<close>

definition uniqueCount :: "CardInstance list \<Rightarrow> nat" where
  "uniqueCount matching = length (remdups (map inst_id (filter noJoker matching)))"

subsection \<open>Cross-player keys\<close>

record MostKey =
  k_ids :: string
  k_tags :: string
  k_unique :: bool
  k_treeSymbol :: "string option"

definition truthyStrings :: "string list option \<Rightarrow> string list" where
  "truthyStrings l = filter (\<lambda>s. s \<noteq> []) (case l of None \<Rightarrow> [] | Some xs \<Rightarrow> xs)"

definition makeMostKey :: "CardInstance \<Rightarrow> ConditionJson \<Rightarrow> MostKey" where
  "makeMostKey self cond =
     \<lparr> k_ids = joinWith '','' (sortStrings (truthyStrings (name cond))),
       k_tags = joinWith '','' (sortStrings (truthyStrings (tags cond))),
       k_unique = unique cond,
       k_treeSymbol = (if sameTreeSymbol cond then Some (treeSymbol self) else None) \<rparr>"

definition mostKeyStr :: "MostKey \<Rightarrow> string" where
  "mostKeyStr k =
     k_ids k @ ''|'' @ k_tags k @ ''|'' @ showBool (k_unique k) @ ''|'' @
     (case k_treeSymbol k of None \<Rightarrow> [] | Some sy \<Rightarrow> sy)"

definition countForMostKey :: "MostKey \<Rightarrow> CardInstance list \<Rightarrow> ConditionJson \<Rightarrow> nat" where
  "countForMostKey key cs cond =
     (let filtered = filter (\<lambda>inst.
            if (case k_treeSymbol key of None \<Rightarrow> False | Some sy \<Rightarrow> treeSymbol inst \<noteq> sy)
            then False
            else
              let idOk = (if k_ids key \<noteq> [] then inst_id inst \<in> set (splitOn CHR '','' (k_ids key))
                          else True);
                  tagsOk = (if k_tags key \<noteq> []
                            then list_ex (\<lambda>t. case defn inst of None \<Rightarrow> False
                                               | Some d \<Rightarrow> t \<in> set (def_tags d))
                                   (splitOn CHR '','' (k_tags key))
                            else True);
                  tyOk = typeOk (ctype cond) inst
              in idOk \<and> tagsOk \<and> tyOk) cs
      in if k_unique key then uniqueCount filtered else length filtered)"

subsection \<open>Scoring state\<close>

text \<open>
  The state one \<open>score()\<close> call threads through its scoring pass: the two maps of the
  cross-player cache, and the \<open>set\<close> property of the card instances. A \<open>Set<string>\<close>
  object lives in \<open>heap\<close> at the address given by its allocation order, as the list of
  its elements in insertion order; \<open>setOf\<close> maps an instance to the address its
  \<open>set\<close> property holds.
\<close>

record ScoreState =
  mostWinnerCache :: "string \<rightharpoonup> (nat \<times> int list)"
  condByKeyStr :: "string \<rightharpoonup> ConditionJson"
  setOf :: "ObjRef \<rightharpoonup> nat"
  heap :: "string list list"

definition emptyState :: ScoreState where
  "emptyState = \<lparr> mostWinnerCache = Map.empty, condByKeyStr = Map.empty,
                   setOf = Map.empty, heap = [] \<rparr>"

type_synonym MostResolver = "CardInstance \<Rightarrow> ConditionJson \<Rightarrow> ScoreState \<Rightarrow> bool \<times> ScoreState"

text \<open>One iteration of \<open>for (const item of matching)\<close> in the table dedup.\<close>

definition dedupStep :: "CardInstance \<Rightarrow> nat list \<times> ScoreState \<Rightarrow> nat list \<times> ScoreState" where
  "dedupStep item acc =
     (let sets = fst acc; st = snd acc
      in case find (\<lambda>a. inst_id item \<notin> set (heap st ! a)) sets of
           Some a \<Rightarrow>
             (sets, st\<lparr> setOf := (setOf st)(iref item \<mapsto> a),
                        heap := (heap st)[a := heap st ! a @ [inst_id item]] \<rparr>)
         | None \<Rightarrow>
             (let a = length (heap st)
              in (sets @ [a], st\<lparr> setOf := (setOf st)(iref item \<mapsto> a),
                                   heap := heap st @ [[inst_id item]] \<rparr>)))"

definition tableDedup :: "CardInstance \<Rightarrow> CardInstance list \<Rightarrow> ScoreState \<Rightarrow> nat \<times> ScoreState" where
  "tableDedup self matching st =
     (let st' = (if setOf st (iref self) = None
                 then (let a = length (heap st);
                           st0 = st\<lparr> setOf := (setOf st)(iref self \<mapsto> a), heap := heap st @ [[]] \<rparr>
                       in snd (fold dedupStep matching ([a], st0)))
                 else st)
      in ((case setOf st' (iref self) of None \<Rightarrow> 0 | Some a \<Rightarrow> length (heap st' ! a)), st'))"

text \<open>The candidate pool; \<open>None\<close> is the early \<open>return 0\<close>.\<close>

definition sideList :: "Tree \<Rightarrow> Side \<Rightarrow> CardInstance list" where
  "sideList tree side =
     (case side of STop \<Rightarrow> tree_top tree | SBottom \<Rightarrow> tree_bottom tree
      | SLeft \<Rightarrow> tree_left tree | SRight \<Rightarrow> tree_right tree)"

definition poolFor :: "CardInstance \<Rightarrow> ConditionJson \<Rightarrow> CardInstance list \<Rightarrow> Placement option \<Rightarrow> CardInstance list option" where
  "poolFor self cond allInsts placement =
     (if sameTree cond then
        (case placement of None \<Rightarrow> None
         | Some p \<Rightarrow>
             (let tree = p_tree p;
                  treeCards = tree_top tree @ tree_bottom tree @ tree_left tree @ tree_right tree
              in Some (if iref self = iref (tree_card tree) then treeCards
                       else tree_card tree # treeCards)))
      else if sameSpot cond then
        (case placement of None \<Rightarrow> None
         | Some p \<Rightarrow> (case p_side p of None \<Rightarrow> None | Some side \<Rightarrow> Some (sideList (p_tree p) side)))
      else if (case position cond of None \<Rightarrow> False | Some l \<Rightarrow> ''below'' \<in> set l) then
        Some (filter (\<lambda>ot. y1 (box ot) \<ge> y2 (box self) \<and> overlapH (box ot) (box self) > 0) allInsts)
      else Some allInsts)"

definition countMatches ::
  "CardInstance \<Rightarrow> ConditionJson \<Rightarrow> CardInstance list \<Rightarrow> (ObjRef \<rightharpoonup> Placement) \<Rightarrow> bool \<Rightarrow>
   MostResolver option \<Rightarrow> ScoreState \<Rightarrow> nat \<times> ScoreState" where
  "countMatches self cond allInsts placementsByBox assumeMost mostResolver st =
     (let gate = (if most cond
                  then (case mostResolver of None \<Rightarrow> (assumeMost, st) | Some r \<Rightarrow> r self cond st)
                  else (True, st));
          st1 = snd gate
      in if \<not> fst gate then (0, st1)
         else
           let placement = placementsByBox (iref self)
           in if fullTree cond then
                ((case placement of None \<Rightarrow> 0
                  | Some p \<Rightarrow> if isFullTree (p_tree p) then 1 else 0), st1)
              else
                (case poolFor self cond allInsts placement of
                   None \<Rightarrow> (0, st1)
                 | Some pool \<Rightarrow>
                     (let matching = filterCards self pool cond
                      in if unique cond \<and>
                            (case defn self of None \<Rightarrow> False
                             | Some d \<Rightarrow> (case def_score d of None \<Rightarrow> False
                                          | Some sc \<Rightarrow> stype sc = ''table''))
                         then tableDedup self matching st1
                         else ((if unique cond then uniqueCount matching else length matching), st1))))"

section \<open>Score engine\<close>

definition pointsWord :: "int \<Rightarrow> string" where
  "pointsWord n = (if n = 1 then ''Punkt'' else ''Punkte'')"

definition describeTarget :: "ConditionJson \<Rightarrow> string" where
  "describeTarget cond =
     (let ids = truthyStrings (name cond);
          tgs = truthyStrings (tags cond)
      in if length ids > 0 then joinWith ''/'' ids
         else if length tgs > 0 then joinWith '' oder '' tgs
         else ''Karten'')"

definition describeScope :: "ConditionJson \<Rightarrow> string" where
  "describeScope cond = (if sameTree cond then ''im selben Baum'' else [])"

definition describeExtras :: "ConditionJson \<Rightarrow> string" where
  "describeExtras cond =
     joinWith '', ''
       ((if unique cond then [''einzigartig''] else []) @
        (if sameTreeSymbol cond then [''gleiches Baum-Symbol''] else []) @
        (if fullTree cond then [''voller Baum''] else []) @
        (if sameSpot cond then [''gleicher Platz''] else []) @
        (if most cond then [''meiste''] else []) @
        (case position cond of None \<Rightarrow> []
         | Some l \<Rightarrow> if length l > 0 then [joinWith ''/'' l] else []))"

text \<open>\<open>Array.isArray(scoreRule.amount) ? 0 : (scoreRule.amount ?? 0)\<close>.\<close>

definition scalarAmount :: "ScoreJson \<Rightarrow> int" where
  "scalarAmount scoreRule = (case amount scoreRule of Some (Scalar a) \<Rightarrow> a | _ \<Rightarrow> 0)"

definition tableAmount :: "ScoreJson \<Rightarrow> int list" where
  "tableAmount scoreRule = (case amount scoreRule of Some (Table arr) \<Rightarrow> arr | _ \<Rightarrow> [])"

definition parens :: "string \<Rightarrow> string" where
  "parens s = (if s \<noteq> [] then '' ('' @ s @ '')'' else [])"

definition spaced :: "string \<Rightarrow> string" where
  "spaced s = (if s \<noteq> [] then '' '' @ s else [])"

text \<open>The characters U+00FC and U+00B7 of the explanation texts.\<close>

definition uUml :: char where "uUml = char_of (252 :: nat)"
definition midDot :: char where "midDot = char_of (183 :: nat)"

text \<open>
  \<open>scoreInstanceWithReason\<close>, with the bodies of its three \<open>if (type === ...)\<close>
  blocks as \<open>scoreFixed\<close>, \<open>scoreMultiplication\<close> and \<open>scoreTable\<close>.
\<close>

definition scoreFixed ::
  "ScoreJson \<Rightarrow> CardInstance \<Rightarrow> CardInstance list \<Rightarrow> (ObjRef \<rightharpoonup> Placement) \<Rightarrow> bool \<Rightarrow>
   MostResolver option \<Rightarrow> ScoreState \<Rightarrow> (int \<times> string) \<times> ScoreState" where
  "scoreFixed scoreRule instance allInsts placementsByBox assumeMost mostResolver st =
     (let amt = scalarAmount scoreRule
      in case condition scoreRule of
           None \<Rightarrow> ((amt, showInt amt @ '' feste '' @ pointsWord amt), st)
         | Some c \<Rightarrow>
             (let r = countMatches instance c allInsts placementsByBox assumeMost mostResolver st;
                  matches = fst r;
                  satisfied = (case smin scoreRule of None \<Rightarrow> matches > 0
                               | Some m \<Rightarrow> int matches \<ge> m);
                  minText = (case smin scoreRule of None \<Rightarrow> ''mind. 1''
                             | Some m \<Rightarrow> ''mind. '' @ showInt m);
                  extraStr = parens (describeExtras c);
                  scopeStr = spaced (describeScope c);
                  target = describeTarget c
              in if satisfied then
                   ((amt, showInt amt @ '' feste '' @ pointsWord amt @ '' ('' @
                          showNat matches @ '' Treffer, '' @ minText @ '' '' @ target @
                          scopeStr @ extraStr @ '')''), snd r)
                 else
                   ((0, ''0 '' @ pointsWord 0 @ '' (Bedingung nicht erf'' @ [uUml] @ ''llt: '' @
                        showNat matches @ '' Treffer, '' @ minText @ '' '' @ target @
                        scopeStr @ extraStr @ '')''), snd r)))"

definition scoreMultiplication ::
  "ScoreJson \<Rightarrow> CardInstance \<Rightarrow> CardInstance list \<Rightarrow> (ObjRef \<rightharpoonup> Placement) \<Rightarrow> bool \<Rightarrow>
   MostResolver option \<Rightarrow> ScoreState \<Rightarrow> (int \<times> string) \<times> ScoreState" where
  "scoreMultiplication scoreRule instance allInsts placementsByBox assumeMost mostResolver st =
     (let amt = scalarAmount scoreRule
      in case condition scoreRule of
           None \<Rightarrow> ((0, ''0 (keine Bedingung)''), st)
         | Some c \<Rightarrow>
             (let r = countMatches instance c allInsts placementsByBox assumeMost mostResolver st;
                  matches = fst r;
                  effectiveMatches = (case smin scoreRule of None \<Rightarrow> matches
                                      | Some m \<Rightarrow> if int matches < m then 0 else matches);
                  pts = amt * int effectiveMatches;
                  minText = (case smin scoreRule of None \<Rightarrow> []
                             | Some m \<Rightarrow> ''mind. '' @ showInt m);
                  extraStr = parens (describeExtras c);
                  scopeStr = describeScope c;
                  perText = showInt amt @ '' '' @ pointsWord amt @ '' pro '' @ describeTarget c;
                  detailsParts = filter (\<lambda>s. s \<noteq> []) [minText, scopeStr];
                  detailsStr = (if length detailsParts > 0
                                then '' ('' @ joinWith '', '' detailsParts @ '')'' else [])
              in ((pts, perText @ '' '' @ [midDot] @ '' '' @ showNat effectiveMatches @
                        detailsStr @ extraStr), snd r)))"

definition scoreTable ::
  "ScoreJson \<Rightarrow> CardInstance \<Rightarrow> CardInstance list \<Rightarrow> (ObjRef \<rightharpoonup> Placement) \<Rightarrow> bool \<Rightarrow>
   MostResolver option \<Rightarrow> ScoreState \<Rightarrow> (int \<times> string) \<times> ScoreState" where
  "scoreTable scoreRule instance allInsts placementsByBox assumeMost mostResolver st =
     (let arr = tableAmount scoreRule
      in case condition scoreRule of
           None \<Rightarrow> ((0, ''0 (keine Bedingung)''), st)
         | Some c \<Rightarrow>
             (let r = countMatches instance c allInsts placementsByBox assumeMost mostResolver st;
                  matches = fst r;
                  pts = scoreTableIndex arr (int matches);
                  extraStr = parens (describeExtras c);
                  scopeStr = spaced (describeScope c)
              in ((pts, ''Tabelle: '' @ showNat matches @ '' Treffer ('' @ describeTarget c @
                        scopeStr @ extraStr @ '')''), snd r)))"

definition scoreInstanceWithReason ::
  "CardInstance \<Rightarrow> CardInstance list \<Rightarrow> (ObjRef \<rightharpoonup> Placement) \<Rightarrow> bool \<Rightarrow>
   MostResolver option \<Rightarrow> ScoreState \<Rightarrow> (int \<times> string) \<times> ScoreState" where
  "scoreInstanceWithReason instance allInsts placementsByBox assumeMost mostResolver st =
     (case (case defn instance of None \<Rightarrow> None | Some d \<Rightarrow> def_score d) of
        None \<Rightarrow> ((0, ''kein Effekt''), st)
      | Some scoreRule \<Rightarrow>
          (let ty = toLowerCase (stype scoreRule)
           in if ty = ''fixed'' then
                scoreFixed scoreRule instance allInsts placementsByBox assumeMost mostResolver st
              else if ty = ''multiplication'' then
                scoreMultiplication scoreRule instance allInsts placementsByBox assumeMost mostResolver st
              else if ty = ''table'' then
                scoreTable scoreRule instance allInsts placementsByBox assumeMost mostResolver st
              else ((0, ''kein Effekt''), st)))"

section \<open>Cross-player resolver\<close>

text \<open>
  \<open>getMostWinners\<close> and the \<open>mostResolver\<close> closure of \<open>score\<close>; the closure's free
  variables \<open>prepared\<close> (the instance pool of every player) and \<open>playerIndex\<close> are
  parameters.
\<close>

definition mostCounts :: "CardInstance list list \<Rightarrow> MostKey \<Rightarrow> ConditionJson \<Rightarrow> nat list" where
  "mostCounts pools key cond = map (\<lambda>p. countForMostKey key p cond) pools"

definition mostWinnersOf :: "nat list \<Rightarrow> nat \<times> int list" where
  "mostWinnersOf counts =
     (let mx = fold max counts 0
      in (mx, if mx \<le> 0 then []
              else filter (\<lambda>i. i \<ge> 0)
                     (map (\<lambda>(c, i). if c = mx then int i else - 1)
                        (zip counts [0 ..< length counts]))))"

definition getMostWinners ::
  "CardInstance list list \<Rightarrow> MostKey \<Rightarrow> ConditionJson \<Rightarrow> ScoreState \<Rightarrow> (nat \<times> int list) \<times> ScoreState" where
  "getMostWinners pools key cond st =
     (let ks = mostKeyStr key
      in case mostWinnerCache st ks of
           Some e \<Rightarrow> (e, st)
         | None \<Rightarrow>
             (let e = mostWinnersOf (mostCounts pools key cond)
              in (e, st\<lparr> mostWinnerCache := (mostWinnerCache st)(ks \<mapsto> e),
                         condByKeyStr := (condByKeyStr st)(ks \<mapsto> cond) \<rparr>)))"

definition mostResolverFor :: "CardInstance list list \<Rightarrow> nat \<Rightarrow> MostResolver" where
  "mostResolverFor pools playerIndex self cond st =
     (if \<not> most cond then (True, st)
      else
        (let key = makeMostKey self cond;
             r = getMostWinners pools key cond st
         in (int playerIndex \<in> set (snd (fst r)), snd r)))"



section \<open>Card instance parsing\<close>

definition parseCardInstance :: "Box \<Rightarrow> (string \<rightharpoonup> CardDef) \<Rightarrow> CardInstance option" where
  "parseCardInstance b defById =
     (case indexOf (clsName b) CHR '':'' of
        None \<Rightarrow> None
      | Some colon \<Rightarrow>
          (let i = trim (take colon (clsName b));
               sym = trim (drop (colon + 1) (clsName b))
           in Some \<lparr> box = b, inst_id = i, treeSymbol = sym, defn = defById i \<rparr>))"

section \<open>Forest parser\<close>

text \<open>
  The four quantities both placement tests compute for a side, an anchor box \<open>a\<close> and a
  card box \<open>c\<close>.
\<close>

definition vertical :: "Side \<Rightarrow> bool" where
  "vertical side = (side = STop \<or> side = SBottom)"

definition perpOverlapOf :: "Side \<Rightarrow> Box \<Rightarrow> Box \<Rightarrow> real" where
  "perpOverlapOf side c a = (if vertical side then overlapH c a else overlapV c a)"

definition minPerpSizeOf :: "Side \<Rightarrow> Box \<Rightarrow> Box \<Rightarrow> real" where
  "minPerpSizeOf side a c =
     max ADJACENT_EPSILON (if vertical side then min (w a) (w c) else min (h a) (h c))"

definition rawDistOf :: "Side \<Rightarrow> Box \<Rightarrow> Box \<Rightarrow> real" where
  "rawDistOf side a c =
     (case side of
        STop \<Rightarrow> y1 a - y2 c
      | SBottom \<Rightarrow> y1 c - y2 a
      | SLeft \<Rightarrow> x1 a - x2 c
      | SRight \<Rightarrow> x1 c - x2 a)"

definition maxGapOf :: "Side \<Rightarrow> Box \<Rightarrow> Box \<Rightarrow> real" where
  "maxGapOf side a c =
     max ADJACENT_EPSILON (if vertical side then max (h a) (h c) else max (w a) (w c))
       * MAX_SIDE_GAP_RATIO"

text \<open>The body of the loop over sides in \<open>bestPlacementCandidate\<close>; \<open>None\<close> is \<open>continue\<close>.\<close>

definition sideCandidate :: "CardInstance \<Rightarrow> CardInstance \<Rightarrow> Side \<Rightarrow> PlacementCandidate option" where
  "sideCandidate c tree side =
     (let perpOverlap = perpOverlapOf side (box c) (box tree)
      in if perpOverlap < minPerpSizeOf side (box tree) (box c) * MIN_PERP_OVERLAP_RATIO then None
         else
           let rawDist = rawDistOf side (box tree) (box c)
           in if rawDist < - SIDE_OVERLAP_TOLERANCE then None
              else
                let d = max 0 rawDist
                in if d > maxGapOf side (box tree) (box c) then None
                   else
                     let onCorrectSide =
                       ((side = STop \<and> cy (box c) \<le> cy (box tree)) \<or>
                        (side = SBottom \<and> cy (box c) \<ge> cy (box tree)) \<or>
                        (side = SLeft \<and> cx (box c) \<le> cx (box tree)) \<or>
                        (side = SRight \<and> cx (box c) \<ge> cx (box tree)))
                     in if \<not> onCorrectSide then None
                        else Some \<lparr> cand_tree = tree, cand_side = side, cand_dist = d,
                                    cand_overlap = perpOverlap \<rparr>)"

text \<open>\<open>!best || cand.dist < best.dist || (cand.dist === best.dist && cand.overlap > best.overlap)\<close>.\<close>

definition replaces :: "PlacementCandidate option \<Rightarrow> PlacementCandidate \<Rightarrow> bool" where
  "replaces best cand =
     (case best of None \<Rightarrow> True
      | Some b \<Rightarrow> cand_dist cand < cand_dist b \<or>
                 (cand_dist cand = cand_dist b \<and> cand_overlap cand > cand_overlap b))"

definition keepBest :: "PlacementCandidate option \<Rightarrow> PlacementCandidate option \<Rightarrow> PlacementCandidate option" where
  "keepBest cand best =
     (case cand of None \<Rightarrow> best | Some c \<Rightarrow> if replaces best c then Some c else best)"

definition bestPlacementCandidate :: "CardInstance \<Rightarrow> CardInstance \<Rightarrow> PlacementCandidate option" where
  "bestPlacementCandidate c tree =
     fold (\<lambda>side best. keepBest (sideCandidate c tree side) best) [STop, SLeft, SRight, SBottom] None"

text \<open>The body of the loop over cards in \<open>pickDirectlyAdjacent\<close>; \<open>None\<close> is \<open>continue\<close>.\<close>

definition adjacentDist :: "Box \<Rightarrow> CardInstance \<Rightarrow> Side \<Rightarrow> real option" where
  "adjacentDist anchorBox c side =
     (let perpOverlap = perpOverlapOf side (box c) anchorBox
      in if perpOverlap < minPerpSizeOf side anchorBox (box c) * MIN_PERP_OVERLAP_RATIO then None
         else
           let rawDist = rawDistOf side anchorBox (box c)
           in if rawDist < - SIDE_OVERLAP_TOLERANCE then None
              else
                let d = max 0 rawDist;
                    onCorrectSide =
                      ((side = STop \<and> y2 (box c) \<le> y1 anchorBox + ADJACENT_EPSILON) \<or>
                       (side = SBottom \<and> y1 (box c) \<ge> y2 anchorBox - ADJACENT_EPSILON) \<or>
                       (side = SLeft \<and> x2 (box c) \<le> x1 anchorBox + ADJACENT_EPSILON) \<or>
                       (side = SRight \<and> x1 (box c) \<ge> x2 anchorBox - ADJACENT_EPSILON))
                in if \<not> onCorrectSide then None
                   else if d > maxGapOf side anchorBox (box c) then None
                   else Some d)"

fun minList :: "real list \<Rightarrow> real" where
  "minList [] = 0"
| "minList (x # xs) = fold min xs x"

definition pickDirectlyAdjacent :: "Box \<Rightarrow> CardInstance list \<Rightarrow> Side \<Rightarrow> CardInstance list" where
  "pickDirectlyAdjacent anchorBox cs side =
     (let candidates = List.map_filter
            (\<lambda>c. map_option (\<lambda>d. (c, d)) (adjacentDist anchorBox c side)) cs
      in if length candidates = 0 then []
         else
           let minDist = minList (map snd candidates)
           in map fst (filter (\<lambda>cd. snd cd \<le> minDist + ADJACENT_EPSILON) candidates))"

text \<open>A \<open>Set\<close> of instances filled in iteration order: the first occurrence of each reference.\<close>

fun dedupRef :: "ObjRef list \<Rightarrow> CardInstance list \<Rightarrow> CardInstance list" where
  "dedupRef seen [] = []"
| "dedupRef seen (c # cs) =
     (if iref c \<in> set seen then dedupRef seen cs else c # dedupRef (iref c # seen) cs)"

text \<open>\<open>remaining.indexOf(c)\<close> followed by \<open>remaining.splice(idx, 1)\<close>.\<close>

fun removeFirstRef :: "ObjRef \<Rightarrow> CardInstance list \<Rightarrow> CardInstance list" where
  "removeFirstRef r [] = []"
| "removeFirstRef r (c # cs) = (if iref c = r then cs else c # removeFirstRef r cs)"

text \<open>
  The state of \<open>expandSideChain\<close>: the chain's anchor boxes, the side list it extends and
  the pool of unattached instances shared by all chains.
\<close>

record Chain =
  anchors :: "Box list"
  attached :: "CardInstance list"
  remaining :: "CardInstance list"

definition nextRound :: "Side \<Rightarrow> Chain \<Rightarrow> CardInstance list" where
  "nextRound side ch =
     dedupRef [] (concat (map (\<lambda>a. pickDirectlyAdjacent a (remaining ch) side) (anchors ch)))"

definition moveOne :: "CardInstance \<Rightarrow> Chain \<Rightarrow> Chain" where
  "moveOne c ch =
     (if memRef c (remaining ch)
      then \<lparr> anchors = anchors ch @ [box c], attached = attached ch @ [c],
             remaining = removeFirstRef (iref c) (remaining ch) \<rparr>
      else ch)"

text \<open>
  Every round of the \<open>while (true)\<close> loop that does not break removes an instance from
  \<open>remaining\<close>, so the loop ends.
\<close>

lemma adjacent_subset: "set (pickDirectlyAdjacent a cs side) \<subseteq> set cs"
  by (auto simp: pickDirectlyAdjacent_def Let_def List.map_filter_def)

lemma dedupRef_subset: "set (dedupRef seen cs) \<subseteq> set cs"
  by (induction cs arbitrary: seen) auto

lemma nextRound_subset: "set (nextRound side ch) \<subseteq> set (remaining ch)"
  unfolding nextRound_def using adjacent_subset dedupRef_subset by fastforce

lemma length_removeFirstRef:
  "length (removeFirstRef r cs) = (if r \<in> set (map iref cs) then length cs - 1 else length cs)"
  by (induction cs) (auto simp: length_greater_0_conv [symmetric] simp del: length_greater_0_conv dest!: length_pos_if_in_set)

lemma moveOne_length: "length (remaining (moveOne c ch)) \<le> length (remaining ch)"
  by (simp add: moveOne_def memRef_def length_removeFirstRef)

lemma fold_moveOne_length: "length (remaining (fold moveOne cs ch)) \<le> length (remaining ch)"
proof (induction cs arbitrary: ch)
  case Nil
  show ?case by simp
next
  case (Cons c cs)
  have "length (remaining (fold moveOne cs (moveOne c ch))) \<le> length (remaining (moveOne c ch))"
    by (rule Cons.IH)
  also have "\<dots> \<le> length (remaining ch)" by (rule moveOne_length)
  finally show ?case by simp
qed

lemma round_shrinks:
  assumes "nextRound side ch \<noteq> []"
  shows "length (remaining (fold moveOne (nextRound side ch) ch)) < length (remaining ch)"
proof -
  obtain c cs where nx: "nextRound side ch = c # cs"
    using assms by (cases "nextRound side ch") auto
  have "c \<in> set (remaining ch)"
    using nextRound_subset [of side ch] nx by auto
  then have mem: "memRef c (remaining ch)" by (auto simp: memRef_def)
  then have "remaining ch \<noteq> []" by (auto simp: memRef_def)
  with mem have "length (remaining (moveOne c ch)) < length (remaining ch)"
    by (simp add: moveOne_def memRef_def length_removeFirstRef)
  moreover have "length (remaining (fold moveOne cs (moveOne c ch))) \<le> length (remaining (moveOne c ch))"
    by (rule fold_moveOne_length)
  ultimately show ?thesis by (simp add: nx)
qed

function expandLoop :: "Side \<Rightarrow> Chain \<Rightarrow> Chain" where
  "expandLoop side ch =
     (let next = nextRound side ch
      in if length next = 0 then ch else expandLoop side (fold moveOne next ch))"
  by pat_completeness auto
termination
  by (relation "measure (\<lambda>(side, ch). length (remaining ch))") (auto simp: round_shrinks)

declare expandLoop.simps [simp del]

definition expandSideChain ::
  "Box \<Rightarrow> Side \<Rightarrow> CardInstance list \<Rightarrow> CardInstance list \<Rightarrow> CardInstance list \<times> CardInstance list" where
  "expandSideChain treeBox side att rem =
     (let ch = expandLoop side \<lparr> anchors = treeBox # map box att, attached = att, remaining = rem \<rparr>
      in (attached ch, remaining ch))"

text \<open>
  The four maps \<open>topByTree\<close>, \<open>bottomByTree\<close>, \<open>leftByTree\<close>, \<open>rightByTree\<close> from a
  tree's box to a side list, as one function of the side and the box reference. A missing
  entry and an empty list are the same to every reader of the maps (\<open>sideListFor\<close>
  creates the empty list, the final \<open>get\<close> defaults to it), so the function is total;
  the keys ever written are boxes of \<open>treeCards\<close>.
\<close>

type_synonym SideMaps = "Side \<Rightarrow> ObjRef \<Rightarrow> CardInstance list"

definition sideListFor :: "SideMaps \<Rightarrow> CardInstance \<Rightarrow> Side \<Rightarrow> CardInstance list" where
  "sideListFor maps tree side = maps side (iref tree)"

definition setSideList :: "SideMaps \<Rightarrow> CardInstance \<Rightarrow> Side \<Rightarrow> CardInstance list \<Rightarrow> SideMaps" where
  "setSideList maps tree side l = maps(side := (maps side)(iref tree := l))"

definition directBest :: "CardInstance \<Rightarrow> CardInstance list \<Rightarrow> PlacementCandidate option" where
  "directBest c treeCards =
     fold (\<lambda>tree best. keepBest (bestPlacementCandidate c tree) best) treeCards None"

definition placeDirect :: "CardInstance list \<Rightarrow> CardInstance \<Rightarrow> SideMaps \<Rightarrow> SideMaps" where
  "placeDirect treeCards c maps =
     (case directBest c treeCards of
        None \<Rightarrow> maps
      | Some best \<Rightarrow>
          setSideList maps (cand_tree best) (cand_side best)
            (sideListFor maps (cand_tree best) (cand_side best) @ [c]))"

definition expandSide :: "CardInstance \<Rightarrow> Side \<Rightarrow> SideMaps \<times> CardInstance list \<Rightarrow> SideMaps \<times> CardInstance list" where
  "expandSide treeCard side acc =
     (let r = expandSideChain (box treeCard) side (sideListFor (fst acc) treeCard side) (snd acc)
      in (setSideList (fst acc) treeCard side (fst r), snd r))"

definition expandTree :: "CardInstance \<Rightarrow> SideMaps \<times> CardInstance list \<Rightarrow> SideMaps \<times> CardInstance list" where
  "expandTree treeCard acc =
     expandSide treeCard SRight (expandSide treeCard SLeft
       (expandSide treeCard SBottom (expandSide treeCard STop acc)))"

definition allSides :: "Side list" where
  "allSides = [STop, SBottom, SLeft, SRight]"

definition placedIn :: "SideMaps \<Rightarrow> CardInstance list \<Rightarrow> CardInstance list" where
  "placedIn maps treeCards =
     concat (map (\<lambda>side. concat (map (\<lambda>t. maps side (iref t)) treeCards)) allSides)"

definition labelPrefix :: "Box \<Rightarrow> string option" where
  "labelPrefix b =
     (case indexOf (clsName b) CHR '':'' of
        None \<Rightarrow> None
      | Some colon \<Rightarrow> Some (trim (take colon (clsName b))))"

definition defByIdOf :: "CardsJson \<Rightarrow> (string \<rightharpoonup> CardDef)" where
  "defByIdOf cfg = map_of (rev (map (\<lambda>c. (def_id c, c)) (cards cfg)))"

definition treeIdsOf :: "CardsJson \<Rightarrow> string list" where
  "treeIdsOf cfg = map def_id (filter (\<lambda>c. ''Tree'' \<in> set (def_tags c)) (cards cfg))"

definition treeCardsOf :: "Box list \<Rightarrow> CardsJson \<Rightarrow> CardInstance list" where
  "treeCardsOf boxes cfg =
     (let treeBoxes = filter (\<lambda>b. case labelPrefix b of None \<Rightarrow> False
                                   | Some i \<Rightarrow> i \<in> set (treeIdsOf cfg)) boxes
      in List.map_filter (\<lambda>b. parseCardInstance b (defByIdOf cfg)) treeBoxes)"

definition cardInstsOf :: "Box list \<Rightarrow> CardsJson \<Rightarrow> CardInstance list" where
  "cardInstsOf boxes cfg =
     (let otherBoxes = filter (\<lambda>b. case labelPrefix b of None \<Rightarrow> True
                                    | Some i \<Rightarrow> i \<notin> set (treeIdsOf cfg)) boxes
      in List.map_filter (\<lambda>b. parseCardInstance b (defByIdOf cfg)) otherBoxes)"

text \<open>Phase 1, the loop over \<open>cardInsts\<close>, and phase 2, the loop over \<open>treeCards\<close>.\<close>

definition directPlacement :: "CardInstance list \<Rightarrow> CardInstance list \<Rightarrow> SideMaps" where
  "directPlacement treeCards cardInsts = fold (placeDirect treeCards) cardInsts (\<lambda>side r. [])"

definition chainExpansion :: "CardInstance list \<Rightarrow> CardInstance list \<Rightarrow> SideMaps \<Rightarrow> SideMaps \<times> CardInstance list" where
  "chainExpansion treeCards cardInsts maps1 =
     (let directlyPlaced = placedIn maps1 treeCards;
          rem = filter (\<lambda>c. \<not> memRef c directlyPlaced) cardInsts
      in fold expandTree treeCards (maps1, rem))"

definition treeOf :: "SideMaps \<Rightarrow> CardInstance \<Rightarrow> Tree" where
  "treeOf maps tc =
     \<lparr> tree_card = tc, tree_top = maps STop (iref tc), tree_left = maps SLeft (iref tc),
       tree_right = maps SRight (iref tc), tree_bottom = maps SBottom (iref tc) \<rparr>"

definition buildForest :: "Box list \<Rightarrow> CardsJson \<Rightarrow> Forest" where
  "buildForest boxes cfg =
     (let treeCards = treeCardsOf boxes cfg;
          cardInsts = cardInstsOf boxes cfg;
          maps1 = directPlacement treeCards cardInsts;
          maps2 = fst (chainExpansion treeCards cardInsts maps1)
      in \<lparr> trees = map (treeOf maps2) treeCards \<rparr>)"

section \<open>Forest utilities\<close>

definition treeInstances :: "Tree \<Rightarrow> CardInstance list" where
  "treeInstances tree =
     tree_card tree # tree_top tree @ tree_left tree @ tree_right tree @ tree_bottom tree"

definition allCardInstances :: "Forest \<Rightarrow> CardInstance list" where
  "allCardInstances forest = dedupRef [] (concat (map treeInstances (trees forest)))"

definition setIfAbsent :: "('k \<rightharpoonup> 'v) \<Rightarrow> 'k \<Rightarrow> 'v \<Rightarrow> ('k \<rightharpoonup> 'v)" where
  "setIfAbsent m k v = (if m k = None then m(k \<mapsto> v) else m)"

definition placeSide :: "Tree \<Rightarrow> Side \<Rightarrow> CardInstance list \<Rightarrow> (ObjRef \<rightharpoonup> Placement) \<Rightarrow> (ObjRef \<rightharpoonup> Placement)" where
  "placeSide tree side cs m =
     fold (\<lambda>c m'. setIfAbsent m' (iref c) \<lparr> p_tree = tree, p_side = Some side \<rparr>) cs m"

definition placeTree :: "Tree \<Rightarrow> (ObjRef \<rightharpoonup> Placement) \<Rightarrow> (ObjRef \<rightharpoonup> Placement)" where
  "placeTree tree m =
     placeSide tree SRight (tree_right tree)
       (placeSide tree SLeft (tree_left tree)
         (placeSide tree SBottom (tree_bottom tree)
           (placeSide tree STop (tree_top tree)
             (setIfAbsent m (iref (tree_card tree)) \<lparr> p_tree = tree, p_side = None \<rparr>))))"

definition buildPlacementsByBox :: "Forest \<Rightarrow> (ObjRef \<rightharpoonup> Placement)" where
  "buildPlacementsByBox forest = fold placeTree (trees forest) Map.empty"

text \<open>
  \<open>Array.prototype.sort\<close> with a comparator, as a stable insertion sort. For a comparator
  that is a total preorder this is the order every conforming engine produces; for others
  the source's order is engine-defined and the model fixes this one.
\<close>

fun insertBy :: "('a \<Rightarrow> 'a \<Rightarrow> real) \<Rightarrow> 'a \<Rightarrow> 'a list \<Rightarrow> 'a list" where
  "insertBy cmp x [] = [x]"
| "insertBy cmp x (y # ys) = (if cmp x y > 0 then y # insertBy cmp x ys else x # y # ys)"

definition sortBy :: "('a \<Rightarrow> 'a \<Rightarrow> real) \<Rightarrow> 'a list \<Rightarrow> 'a list" where
  "sortBy cmp xs = foldr (insertBy cmp) xs []"

definition sortTreesVisually :: "Tree list \<Rightarrow> Tree list" where
  "sortTreesVisually ts =
     (if length ts = 0 then ts
      else
        let avgH = fold (\<lambda>t s. s + h (box (tree_card t))) ts 0 / real (length ts);
            thresh = max (avgH / 2) ADJACENT_EPSILON
        in sortBy (\<lambda>a b.
             if \<bar>y1 (box (tree_card a)) - y1 (box (tree_card b))\<bar> < thresh
             then x1 (box (tree_card a)) - x1 (box (tree_card b))
             else y1 (box (tree_card a)) - y1 (box (tree_card b))) ts)"

definition indexTree :: "Tree \<times> nat \<Rightarrow> (ObjRef \<rightharpoonup> nat) \<Rightarrow> (ObjRef \<rightharpoonup> nat)" where
  "indexTree ti m =
     fold (\<lambda>c m'. m'(iref c \<mapsto> snd ti))
       (tree_top (fst ti) @ tree_left (fst ti) @ tree_right (fst ti) @ tree_bottom (fst ti))
       (m(iref (tree_card (fst ti)) \<mapsto> snd ti))"

definition buildBoxToTreeIndex :: "Forest \<Rightarrow> (ObjRef \<rightharpoonup> nat)" where
  "buildBoxToTreeIndex forest =
     (let sortedTrees = sortTreesVisually (trees forest)
      in fold indexTree (zip sortedTrees [0 ..< length sortedTrees]) Map.empty)"

subsection \<open>Display order\<close>

definition attachedCmp :: "Side \<Rightarrow> CardInstance \<Rightarrow> CardInstance \<Rightarrow> real" where
  "attachedCmp side a b =
     (case side of
        STop \<Rightarrow> if y2 (box b) \<noteq> y2 (box a) then y2 (box b) - y2 (box a) else cx (box a) - cx (box b)
      | SBottom \<Rightarrow> if y1 (box a) \<noteq> y1 (box b) then y1 (box a) - y1 (box b) else cx (box a) - cx (box b)
      | SLeft \<Rightarrow> if x2 (box b) \<noteq> x2 (box a) then x2 (box b) - x2 (box a) else cy (box a) - cy (box b)
      | SRight \<Rightarrow> if x1 (box a) \<noteq> x1 (box b) then x1 (box a) - x1 (box b) else cy (box a) - cy (box b))"

definition onSideOf :: "Box \<Rightarrow> Side \<Rightarrow> CardInstance \<Rightarrow> bool" where
  "onSideOf treeBox side c =
     (case side of
        STop \<Rightarrow> y2 (box c) \<le> y1 treeBox + 1 / 1000
      | SBottom \<Rightarrow> y1 (box c) \<ge> y2 treeBox - 1 / 1000
      | SLeft \<Rightarrow> x2 (box c) \<le> x1 treeBox + 1 / 1000
      | SRight \<Rightarrow> x1 (box c) \<ge> x2 treeBox - 1 / 1000)"

definition sortAttached :: "Tree \<Rightarrow> CardInstance list \<Rightarrow> Side \<Rightarrow> CardInstance list" where
  "sortAttached tree sideCards side =
     filter (onSideOf (box (tree_card tree)) side) (sortBy (attachedCmp side) sideCards)"

text \<open>The pair of the output list \<open>sorted\<close> and the set \<open>seen\<close> of box references.\<close>

definition pushUnseen :: "Box \<Rightarrow> Box list \<times> ObjRef list \<Rightarrow> Box list \<times> ObjRef list" where
  "pushUnseen b acc =
     (if boxRef b \<in> set (snd acc) then acc else (fst acc @ [b], boxRef b # snd acc))"

text \<open>
  \<open>if (seen.add(tree.card.box)) sorted.push(tree.card.box)\<close>: \<open>Set.prototype.add\<close>
  returns the set, which is truthy, so the anchor's box is always pushed.
\<close>

definition emitTree :: "Tree \<Rightarrow> Box list \<times> ObjRef list \<Rightarrow> Box list \<times> ObjRef list" where
  "emitTree tree acc =
     (let acc0 = (fst acc @ [box (tree_card tree)], boxRef (box (tree_card tree)) # snd acc);
          acc1 = fold pushUnseen (map box (sortAttached tree (tree_top tree) STop)) acc0;
          acc2 = fold pushUnseen (map box (sortAttached tree (tree_left tree) SLeft)) acc1;
          acc3 = fold pushUnseen (map box (sortAttached tree (tree_right tree) SRight)) acc2
      in fold pushUnseen (map box (sortAttached tree (tree_bottom tree) SBottom)) acc3)"

definition sortCardsInUiOrder :: "Forest \<Rightarrow> Box list" where
  "sortCardsInUiOrder forest =
     (let acc = fold emitTree (sortTreesVisually (trees forest)) ([], []);
          rest = concat (map (\<lambda>tree. map box (treeInstances tree)) (trees forest))
      in fst (fold pushUnseen rest acc))"

section \<open>Public score function\<close>

record PreparedPlayer =
  pp_forest :: "Forest option"
  pp_all :: "CardInstance list"

definition toBox :: "nat \<Rightarrow> nat \<times> DetectedCard \<Rightarrow> Box" where
  "toBox playerIndex idc =
     (let dc = snd idc
      in \<lparr> x1 = d_x1 dc, y1 = d_y1 dc, x2 = d_x2 dc, y2 = d_y2 dc,
           cx = d_cx dc, cy = d_cy dc, w = d_w dc, h = d_h dc,
           clsName = cardId dc, boxRef = Ref playerIndex (fst idc) \<rparr>)"

definition prepare :: "CardsJson \<Rightarrow> nat \<times> PlayerInput \<Rightarrow> PreparedPlayer" where
  "prepare cfg ip =
     (let p = snd ip
      in if length (pcards p) = 0 then \<lparr> pp_forest = None, pp_all = [] \<rparr>
         else
           let boxes = map (toBox (fst ip)) (List.enumerate 0 (pcards p));
               forest = buildForest boxes cfg
           in \<lparr> pp_forest = Some forest, pp_all = allCardInstances forest \<rparr>)"

definition scoreAll ::
  "CardInstance list \<Rightarrow> (ObjRef \<rightharpoonup> Placement) \<Rightarrow> MostResolver \<Rightarrow> ScoreState \<Rightarrow>
   (ObjRef \<rightharpoonup> int \<times> string) \<times> ScoreState" where
  "scoreAll allInsts placementsByBox mostResolver st =
     fold (\<lambda>inst acc.
             let r = scoreInstanceWithReason inst allInsts placementsByBox False (Some mostResolver) (snd acc)
             in ((fst acc)(iref inst \<mapsto> fst r), snd r))
       allInsts (Map.empty, st)"

definition cardDetail ::
  "(ObjRef \<rightharpoonup> CardInstance) \<Rightarrow> (ObjRef \<rightharpoonup> int \<times> string) \<Rightarrow> (ObjRef \<rightharpoonup> nat) \<Rightarrow> Box \<Rightarrow>
   CardScoreDetail option" where
  "cardDetail instByBox scoreByBox boxToTreeIdx b =
     (case instByBox (boxRef b) of
        None \<Rightarrow> None
      | Some inst \<Rightarrow>
          (let pr = (case scoreByBox (boxRef b) of None \<Rightarrow> (0, []) | Some r \<Rightarrow> r);
               grp = (case boxToTreeIdx (boxRef b) of None \<Rightarrow> None
                      | Some treeIdx \<Rightarrow> Some (''Baum '' @ showNat (treeIdx + 1)))
           in Some \<lparr> det_cardId = clsName (box inst), points = fst pr, reason = snd pr,
                      title = Some (inst_id inst), group = grp \<rparr>))"

definition scorePlayer ::
  "CardInstance list list \<Rightarrow> PlayerInput list \<Rightarrow> nat \<Rightarrow> PreparedPlayer \<Rightarrow> ScoreState \<Rightarrow>
   PlayerScoreResult \<times> ScoreState" where
  "scorePlayer pools players playerIndex p st =
     (let playerName = pname (players ! playerIndex)
      in case pp_forest p of
           None \<Rightarrow> (\<lparr> res_name = playerName, totalScore = 0, cardDetails = [] \<rparr>, st)
         | Some forest \<Rightarrow>
             if length (pp_all p) = 0
             then (\<lparr> res_name = playerName, totalScore = 0, cardDetails = [] \<rparr>, st)
             else
               (let mostResolver = mostResolverFor pools playerIndex;
                    placementsByBox = buildPlacementsByBox forest;
                    allInsts = pp_all p;
                    scored = scoreAll allInsts placementsByBox mostResolver st;
                    sortedBoxes = sortCardsInUiOrder forest;
                    instByBox = fold (\<lambda>c m. m(iref c \<mapsto> c)) allInsts Map.empty;
                    boxToTreeIdx = buildBoxToTreeIndex forest;
                    details = List.map_filter (cardDetail instByBox (fst scored) boxToTreeIdx) sortedBoxes;
                    total = fold (\<lambda>d s. s + points d) details 0
                in (\<lparr> res_name = playerName, totalScore = total, cardDetails = details \<rparr>,
                    snd scored)))"

text \<open>\<open>prepared.map((p, playerIndex) => ...)\<close>, threading the state of the scoring pass.\<close>

fun scorePlayers ::
  "CardInstance list list \<Rightarrow> PlayerInput list \<Rightarrow> (nat \<times> PreparedPlayer) list \<Rightarrow> ScoreState \<Rightarrow>
   PlayerScoreResult list" where
  "scorePlayers pools players [] st = []"
| "scorePlayers pools players (ip # rest) st =
     (let r = scorePlayer pools players (fst ip) (snd ip) st
      in fst r # scorePlayers pools players rest (snd r))"

definition score :: "CardsJson \<Rightarrow> PlayerInput list \<Rightarrow> PlayerScoreResult list" where
  "score cfg players =
     (let prepared = map (prepare cfg) (List.enumerate 0 players)
      in scorePlayers (map pp_all prepared) players (List.enumerate 0 prepared) emptyState)"

text \<open>The scoring pass of \<open>score\<close>, returning also the state it leaves.\<close>

fun scorePlayersOn ::
  "CardInstance list list \<Rightarrow> PlayerInput list \<Rightarrow> (nat \<times> PreparedPlayer) list \<Rightarrow> ScoreState \<Rightarrow>
   PlayerScoreResult list \<times> ScoreState" where
  "scorePlayersOn pools players [] st = ([], st)"
| "scorePlayersOn pools players (ip # rest) st =
     (let r = scorePlayer pools players (fst ip) (snd ip) st;
          rs = scorePlayersOn pools players rest (snd r)
      in (fst r # fst rs, snd rs))"

text \<open>
  One call of \<open>score\<close> in a process that has made calls before. What a call leaves
  behind stays in the heap: \<open>jsHeap\<close> is the state of the scoring pass as the previous
  call left it. The body of \<open>score\<close> creates its objects anew: the object literals of
  lines 708 to 712 and of \<open>parseCardInstance\<close> make the boxes and instances of this call,
  which have no \<open>set\<close> property (the references \<open>createdRefs\<close> name them; their
  former bearers are unreachable), and the two \<open>new Map()\<close> of lines 719 and 720 make
  empty caches. A \<open>new Set()\<close> of the table dedup is allocated behind the sets that are
  already in the heap. \<open>score\<close> above is the call on the empty heap.
\<close>

definition createdRefs :: "PlayerInput list \<Rightarrow> ObjRef list" where
  "createdRefs players =
     concat (map (\<lambda>ip. map boxRef (map (toBox (fst ip)) (List.enumerate 0 (pcards (snd ip)))))
               (List.enumerate 0 players))"

definition scoreOnHeap ::
  "CardsJson \<Rightarrow> PlayerInput list \<Rightarrow> ScoreState \<Rightarrow> PlayerScoreResult list \<times> ScoreState" where
  "scoreOnHeap cfg players st =
     (let prepared = map (prepare cfg) (List.enumerate 0 players);
          st1 = st\<lparr> setOf := (\<lambda>r. if r \<in> set (createdRefs players) then None else setOf st r) \<rparr>;
          st2 = st1\<lparr> mostWinnerCache := Map.empty, condByKeyStr := Map.empty \<rparr>
      in scorePlayersOn (map pp_all prepared) players (List.enumerate 0 prepared) st2)"

record ModuleState =
  CARDS_JSON :: CardsJson
  jsHeap :: ScoreState

definition scoreCall :: "PlayerInput list \<Rightarrow> ModuleState \<Rightarrow> PlayerScoreResult list \<times> ModuleState" where
  "scoreCall players ms =
     (let r = scoreOnHeap (CARDS_JSON ms) players (jsHeap ms)
      in (fst r, ms\<lparr> jsHeap := snd r \<rparr>))"

fun runCalls :: "PlayerInput list list \<Rightarrow> ModuleState \<Rightarrow> PlayerScoreResult list list \<times> ModuleState" where
  "runCalls [] ms = ([], ms)"
| "runCalls (players # rest) ms =
     (let r = scoreCall players ms;
          rs = runCalls rest (snd r)
      in (fst r # fst rs, snd rs))"

section \<open>Example cards and layouts\<close>

text \<open>Concrete definitions, conditions and boxes at which the theorems below are instantiated.\<close>

definition exCond :: ConditionJson where
  "exCond = \<lparr> name = None, tags = None, ctype = None, unique = False, sameTree = False,
     sameTreeSymbol = False, fullTree = False, most = False, sameSpot = False, position = None \<rparr>"

definition exBox :: "nat \<Rightarrow> nat \<Rightarrow> string \<Rightarrow> real \<Rightarrow> real \<Rightarrow> real \<Rightarrow> real \<Rightarrow> Box" where
  "exBox p i l a b c d = \<lparr> x1 = a, y1 = b, x2 = c, y2 = d, cx = a + (c - a) / 2, cy = b + (d - b) / 2,
     w = c - a, h = d - b, clsName = l, boxRef = Ref p i \<rparr>"

definition exTableRule :: ScoreJson where
  "exTableRule = \<lparr> stype = ''table'', amount = Some (Table [1, 3, 6]), smin = None,
     condition = Some (exCond\<lparr> name := Some [''fly''] \<rparr>) \<rparr>"

definition exFlyDef :: CardDef where
  "exFlyDef = \<lparr> def_id = ''fly'', def_tags = [''Insect''], def_type = None,
     def_score = Some exTableRule, joker = None \<rparr>"

definition exFly :: "nat \<Rightarrow> CardInstance" where
  "exFly i = \<lparr> box = exBox 0 i ''fly:oak'' 0 0 1 1, inst_id = ''fly'', treeSymbol = ''oak'',
     defn = Some exFlyDef \<rparr>"

definition exOakRule :: ScoreJson where
  "exOakRule = \<lparr> stype = ''fixed'', amount = Some (Scalar 10), smin = Some 8,
     condition = Some (exCond\<lparr> tags := Some [''Tree''], unique := True \<rparr>) \<rparr>"

definition exOakDef :: CardDef where
  "exOakDef = \<lparr> def_id = ''oak'', def_tags = [''Tree''], def_type = None,
     def_score = Some exOakRule, joker = None \<rparr>"

definition exOak :: CardInstance where
  "exOak = \<lparr> box = exBox 0 0 ''oak:oak'' (1/10) (4/10) (3/10) (7/10), inst_id = ''oak'',
     treeSymbol = ''oak'', defn = Some exOakDef \<rparr>"

definition exOakTree :: Tree where
  "exOakTree = \<lparr> tree_card = exOak, tree_top = [], tree_left = [], tree_right = [], tree_bottom = [] \<rparr>"

definition exWolfRule :: ScoreJson where
  "exWolfRule = \<lparr> stype = ''multiplication'', amount = Some (Scalar 5), smin = None,
     condition = Some (exCond\<lparr> name := Some [''wolf''] \<rparr>) \<rparr>"

definition exWolfDef :: CardDef where
  "exWolfDef = \<lparr> def_id = ''wolf'', def_tags = [''Paw''], def_type = None,
     def_score = Some exWolfRule, joker = None \<rparr>"

definition exWolf :: "nat \<Rightarrow> nat \<Rightarrow> CardInstance" where
  "exWolf p i = \<lparr> box = exBox p i ''wolf:oak'' 0 0 1 1, inst_id = ''wolf'', treeSymbol = ''oak'',
     defn = Some exWolfDef \<rparr>"

definition exFullTree :: Tree where
  "exFullTree = \<lparr> tree_card = exOak, tree_top = [exWolf 0 1], tree_left = [exWolf 0 2],
     tree_right = [exWolf 0 3], tree_bottom = [exWolf 0 4] \<rparr>"

definition exMostFull :: ConditionJson where
  "exMostFull = exCond\<lparr> name := Some [''wolf''], fullTree := True, most := True \<rparr>"

definition exPools :: "CardInstance list list" where
  "exPools = [treeInstances exFullTree, map (exWolf 1) [0, 1, 2, 3, 4]]"



definition exJokerDef :: CardDef where
  "exJokerDef = \<lparr> def_id = ''chestnut'', def_tags = [''Tree''], def_type = None,
     def_score = None, joker = Some \<lparr> jtype = ''Linde'' \<rparr> \<rparr>"

definition exJoker :: CardInstance where
  "exJoker = \<lparr> box = exBox 0 0 ''chestnut:oak'' 0 0 1 1, inst_id = ''chestnut'', treeSymbol = ''oak'',
     defn = Some exJokerDef \<rparr>"

definition exMostLinde :: ConditionJson where
  "exMostLinde = exCond\<lparr> ctype := Some ''Linde'', most := True \<rparr>"

definition exCfg :: CardsJson where
  "exCfg = \<lparr> cards = [exOakDef, exWolfDef, exFlyDef] \<rparr>"

definition exCard :: "string \<Rightarrow> real \<Rightarrow> real \<Rightarrow> real \<Rightarrow> real \<Rightarrow> DetectedCard" where
  "exCard l a b c d = \<lparr> cardId = l, similarity = 1, d_x1 = a, d_y1 = b, d_x2 = c, d_y2 = d,
      d_cx = a + (c - a) / 2, d_cy = b + (d - b) / 2, d_w = c - a, d_h = d - b \<rparr>"

definition exBirchDef :: CardDef where
  "exBirchDef = \<lparr> def_id = ''birch'', def_tags = [''Tree''], def_type = None,
     def_score = Some \<lparr> stype = ''fixed'', amount = Some (Scalar 1), smin = None, condition = None \<rparr>,
     joker = None \<rparr>"

definition exCards :: CardsJson where
  "exCards = \<lparr> cards = [exOakDef, exBirchDef, exWolfDef] \<rparr>"

definition exGhostPlayer :: PlayerInput where
  "exGhostPlayer = \<lparr> pname = ''Alice'', pcards = [exCard ''ghost:oak'' (1/10) (4/10) (3/10) (7/10)] \<rparr>"


definition exChainBoxes :: "Box list" where
  "exChainBoxes = map (toBox 0) (List.enumerate 0
     [exCard ''oak:oak'' (10/100) (4/10) (30/100) (7/10),
      exCard ''wolf:oak'' (31/100) (4/10) (50/100) (7/10),
      exCard ''wolf:birch'' (51/100) (4/10) (70/100) (7/10)])"


definition exLindeDef :: CardDef where
  "exLindeDef = \<lparr> def_id = ''linde'', def_tags = [''Tree''], def_type = Some ''Linde'',
     def_score = Some \<lparr> stype = ''fixed'', amount = Some (Scalar 3), smin = None,
                        condition = Some exMostLinde \<rparr>,
     joker = None \<rparr>"







definition exMothDef :: CardDef where
  "exMothDef = \<lparr> def_id = ''moth'', def_tags = [''Butterfly''], def_type = None,
     def_score = Some \<lparr> stype = ''table'', amount = Some (Table [1, 3, 6]), smin = None,
                        condition = Some (exCond\<lparr> tags := Some [''Butterfly''], unique := True \<rparr>) \<rparr>,
     joker = None \<rparr>"

definition exHeapCards :: CardsJson where
  "exHeapCards = \<lparr> cards = [exLindeDef, exMothDef] \<rparr>"

definition exAnna :: PlayerInput where
  "exAnna = \<lparr> pname = ''Anna'', pcards =
     [exCard ''linde:linde'' (10/100) (4/10) (30/100) (7/10),
      exCard ''moth:linde'' (31/100) (4/10) (50/100) (7/10)] \<rparr>"

definition exBen :: PlayerInput where
  "exBen = \<lparr> pname = ''Ben'', pcards =
     [exCard ''linde:linde'' (10/100) (4/10) (30/100) (7/10),
      exCard ''linde:linde'' (60/100) (4/10) (80/100) (7/10)] \<rparr>"

definition exProcess :: ModuleState where
  "exProcess = \<lparr> CARDS_JSON = exHeapCards, jsHeap = emptyState \<rparr>"

section \<open>The score table\<close>

lemma nth_clamp_last:
  "pts \<noteq> [] \<Longrightarrow> int (length pts) \<le> cnt \<Longrightarrow>
   pts ! nat (max 0 (min (int (length pts) - 1) (cnt - 1))) = last pts"
proof -
  assume ne: "pts \<noteq> []" and le: "int (length pts) \<le> cnt"
  have "max 0 (min (int (length pts) - 1) (cnt - 1)) = int (length pts) - 1"
    using ne le by (simp add: min_def max_def)
  moreover have "nat (int (length pts) - 1) = length pts - 1" by simp
  ultimately show ?thesis using ne by (simp add: last_conv_nth)
qed

text \<open>
  C6. For a non-empty score table \<open>pts\<close> and any match count, \<open>scoreTableIndex\<close> reads
  \<open>pts\<close> at \<open>clamp (cnt - 1) 0 (length pts - 1)\<close>: a count of at least the table's
  length gives the last entry, a count of 0 the first; and the points a \<open>table\<close> rule with
  a condition awards are \<open>scoreTableIndex\<close> of the table at the instance's match count.
\<close>

theorem table_points_clamped:
  assumes "pts \<noteq> []"
      and "defn inst = Some d" and "def_score d = Some rule"
      and "toLowerCase (stype rule) = ''table''"
      and "amount rule = Some (Table pts)" and "condition rule = Some c"
  shows "scoreTableIndex pts cnt = pts ! nat (max 0 (min (int (length pts) - 1) (cnt - 1)))
       \<and> (int (length pts) \<le> cnt \<longrightarrow> scoreTableIndex pts cnt = last pts)
       \<and> scoreTableIndex pts 0 = pts ! 0
       \<and> fst (fst (scoreInstanceWithReason inst allInsts pl am mr st)) =
           scoreTableIndex pts (int (fst (countMatches inst c allInsts pl am mr st)))"
proof -
  have idx: "scoreTableIndex pts k = pts ! nat (max 0 (min (int (length pts) - 1) (k - 1)))" for k
    using assms(1) by (simp add: scoreTableIndex_def)
  have big: "int (length pts) \<le> cnt \<longrightarrow> scoreTableIndex pts cnt = last pts"
  proof
    assume le: "int (length pts) \<le> cnt"
    show "scoreTableIndex pts cnt = last pts"
      unfolding idx by (rule nth_clamp_last [OF assms(1) le])
  qed
  have zero: "scoreTableIndex pts 0 = pts ! 0"
    by (simp add: idx)
  have pts: "fst (fst (scoreInstanceWithReason inst allInsts pl am mr st)) =
           scoreTableIndex pts (int (fst (countMatches inst c allInsts pl am mr st)))"
    using assms(2-6)
    by (simp add: scoreInstanceWithReason_def scoreTable_def tableAmount_def Let_def)
  from idx big zero pts show ?thesis by blast
qed

lemma exTable_lower: "toLowerCase (stype exTableRule) = ''table''"
  by (simp add: exTableRule_def toLowerCase_def toLowerChar_def)

theorem table_points_clamped_witness:
  "scoreTableIndex [1, 3, 6] 5 = 6 \<and> scoreTableIndex [1, 3, 6] 0 = 1
   \<and> fst (fst (scoreInstanceWithReason (exFly 0) [exFly 0, exFly 1] Map.empty False None emptyState)) = 3"
proof -
  have c: "fst (countMatches (exFly 0) (exCond\<lparr> name := Some [''fly''] \<rparr>) [exFly 0, exFly 1]
             Map.empty False None emptyState) = 2"
    by code_simp
  have "defn (exFly 0) = Some exFlyDef" "def_score exFlyDef = Some exTableRule"
    "amount exTableRule = Some (Table [1, 3, 6])"
    "condition exTableRule = Some (exCond\<lparr> name := Some [''fly''] \<rparr>)"
    by (simp_all add: exFly_def exFlyDef_def exTableRule_def)
  from table_points_clamped [OF _ this(1) this(2) exTable_lower this(3) this(4),
      of 5 "[exFly 0, exFly 1]" Map.empty False None emptyState] c
  show ?thesis by (simp add: scoreTableIndex_def)
qed

section \<open>Fixed rules\<close>

text \<open>
  C5. For an instance with a \<open>fixed\<close> rule of scalar amount \<open>a\<close>: without a condition
  the points are \<open>a\<close>; with a condition they are \<open>a\<close> when the match count is at
  least \<open>min\<close> (1 when \<open>min\<close> is absent), and otherwise 0 with an explanation that
  starts \<open>0 Punkte (Bedingung nicht erf\<dots>llt:\<close>, the condition was not met. The
  theorem after it is the instance with \<open>min = 8\<close> over unique matches and one qualifying
  instance.
\<close>

theorem fixed_points:
  assumes "defn inst = Some d" and "def_score d = Some rule"
      and "toLowerCase (stype rule) = ''fixed''" and "amount rule = Some (Scalar a)"
  shows "(condition rule = None \<longrightarrow>
            fst (fst (scoreInstanceWithReason inst allInsts pl am mr st)) = a)
       \<and> (\<forall>c. condition rule = Some c \<longrightarrow>
            (let matches = fst (countMatches inst c allInsts pl am mr st);
                 minimum = (case smin rule of None \<Rightarrow> 1 | Some m \<Rightarrow> m);
                 res = fst (scoreInstanceWithReason inst allInsts pl am mr st)
             in (minimum \<le> int matches \<longrightarrow> fst res = a) \<and>
                (int matches < minimum \<longrightarrow>
                   fst res = 0 \<and>
                   (\<exists>rest. snd res = ''0 Punkte (Bedingung nicht erf'' @ [uUml] @ ''llt: '' @ rest))))"
  using assms
  by (auto simp: scoreInstanceWithReason_def scoreFixed_def scalarAmount_def Let_def pointsWord_def
      split: option.splits)

lemma exOak_lower: "toLowerCase (stype exOakRule) = ''fixed''"
  by (simp add: exOakRule_def toLowerCase_def toLowerChar_def)

lemma exOak_count:
  "fst (countMatches exOak (exCond\<lparr> tags := Some [''Tree''], unique := True \<rparr>) [exOak]
          (buildPlacementsByBox \<lparr> trees = [exOakTree] \<rparr>) False (Some (mostResolverFor [[exOak]] 0))
          emptyState) = 1"
  by code_simp

theorem fixed_points_witness:
  "fst (scoreInstanceWithReason exOak [exOak] (buildPlacementsByBox \<lparr> trees = [exOakTree] \<rparr>) False
          (Some (mostResolverFor [[exOak]] 0)) emptyState) =
     (0, ''0 Punkte (Bedingung nicht erf'' @ [uUml] @ ''llt: 1 Treffer, mind. 8 Tree (einzigartig))'')"
proof -
  have h: "defn exOak = Some exOakDef" "def_score exOakDef = Some exOakRule"
    "amount exOakRule = Some (Scalar 10)"
    "condition exOakRule = Some (exCond\<lparr> tags := Some [''Tree''], unique := True \<rparr>)"
    "smin exOakRule = Some 8"
    by (simp_all add: exOak_def exOakDef_def exOakRule_def)
  have "fst (fst (scoreInstanceWithReason exOak [exOak] (buildPlacementsByBox \<lparr> trees = [exOakTree] \<rparr>) False
          (Some (mostResolverFor [[exOak]] 0)) emptyState)) = 0"
    using fixed_points [OF h(1) h(2) exOak_lower h(3), of "[exOak]"
        "buildPlacementsByBox \<lparr> trees = [exOakTree] \<rparr>" False "Some (mostResolverFor [[exOak]] 0)" emptyState]
      exOak_count h(4) h(5)
    by (simp add: Let_def)
  moreover have "snd (fst (scoreInstanceWithReason exOak [exOak] (buildPlacementsByBox \<lparr> trees = [exOakTree] \<rparr>) False
          (Some (mostResolverFor [[exOak]] 0)) emptyState)) =
       ''0 Punkte (Bedingung nicht erf'' @ [uUml] @ ''llt: 1 Treffer, mind. 8 Tree (einzigartig))''"
    by code_simp
  ultimately show ?thesis by (simp add: prod_eq_iff)
qed

section \<open>Full trees\<close>

theorem fullTree_ignores_most_counterexample:
  "fullTree exMostFull
   \<and> buildPlacementsByBox \<lparr> trees = [exFullTree] \<rparr> (iref exOak) = Some \<lparr> p_tree = exFullTree, p_side = None \<rparr>
   \<and> tree_top exFullTree \<noteq> [] \<and> tree_bottom exFullTree \<noteq> []
   \<and> tree_left exFullTree \<noteq> [] \<and> tree_right exFullTree \<noteq> []
   \<and> fst (countMatches exOak exMostFull (exPools ! 0) (buildPlacementsByBox \<lparr> trees = [exFullTree] \<rparr>)
            False (Some (mostResolverFor exPools 0)) emptyState) = 0"
  by code_simp

text \<open>
  C7 (amended). For an instance whose condition has \<open>fullTree\<close> set and that passes the
  \<open>most\<close> gate (\<open>most\<close> is not set, or the resolver reports a winner), \<open>countMatches\<close>
  returns 1 exactly when the owning tree of its placement has all four attachment lists
  non-empty, and 0 otherwise, whatever the rest of the condition says; and whenever one of
  the four lists of the owning tree is empty the count is 0, gate or no gate.
\<close>

theorem fullTree_count:
  assumes "fullTree cond"
  shows "((most cond \<longrightarrow> (case mr of None \<Rightarrow> am | Some r \<Rightarrow> fst (r self cond st))) \<longrightarrow>
            fst (countMatches self cond allInsts pl am mr st) =
              (case pl (iref self) of
                 None \<Rightarrow> 0
               | Some p \<Rightarrow> if tree_top (p_tree p) \<noteq> [] \<and> tree_bottom (p_tree p) \<noteq> [] \<and>
                              tree_left (p_tree p) \<noteq> [] \<and> tree_right (p_tree p) \<noteq> []
                           then 1 else 0))
       \<and> (\<forall>p. pl (iref self) = Some p \<and>
                (tree_top (p_tree p) = [] \<or> tree_bottom (p_tree p) = [] \<or>
                 tree_left (p_tree p) = [] \<or> tree_right (p_tree p) = []) \<longrightarrow>
                fst (countMatches self cond allInsts pl am mr st) = 0)"
  using assms
  by (auto simp: countMatches_def isFullTree_def Let_def split: option.splits)

theorem fullTree_count_witness:
  "fst (countMatches exOak (exCond\<lparr> fullTree := True \<rparr>) (exPools ! 0)
         (buildPlacementsByBox \<lparr> trees = [exFullTree] \<rparr>) False (Some (mostResolverFor exPools 0))
         emptyState) = 1
   \<and> fst (countMatches exOak (exCond\<lparr> fullTree := True \<rparr>) [exOak]
         (buildPlacementsByBox \<lparr> trees = [exFullTree\<lparr> tree_left := [] \<rparr>] \<rparr>) False
         (Some (mostResolverFor exPools 0)) emptyState) = 0"
proof -
  have f: "fullTree (exCond\<lparr> fullTree := True \<rparr>)" "\<not> most (exCond\<lparr> fullTree := True \<rparr>)"
    by (simp_all add: exCond_def)
  have p1: "buildPlacementsByBox \<lparr> trees = [exFullTree] \<rparr> (iref exOak)
              = Some \<lparr> p_tree = exFullTree, p_side = None \<rparr>"
    by code_simp
  have p2: "buildPlacementsByBox \<lparr> trees = [exFullTree\<lparr> tree_left := [] \<rparr>] \<rparr> (iref exOak)
              = Some \<lparr> p_tree = exFullTree\<lparr> tree_left := [] \<rparr>, p_side = None \<rparr>"
    by code_simp
  have t: "tree_top exFullTree \<noteq> []" "tree_bottom exFullTree \<noteq> []"
    "tree_left exFullTree \<noteq> []" "tree_right exFullTree \<noteq> []"
    by (simp_all add: exFullTree_def)
  from fullTree_count [OF f(1), where mr = "Some (mostResolverFor exPools 0)" and am = False
      and self = exOak and st = emptyState and allInsts = "exPools ! 0"
      and pl = "buildPlacementsByBox \<lparr> trees = [exFullTree] \<rparr>"] f(2) p1 t
  have a: "fst (countMatches exOak (exCond\<lparr> fullTree := True \<rparr>) (exPools ! 0)
         (buildPlacementsByBox \<lparr> trees = [exFullTree] \<rparr>) False (Some (mostResolverFor exPools 0))
         emptyState) = 1"
    by simp
  from fullTree_count [OF f(1), where mr = "Some (mostResolverFor exPools 0)" and am = False
      and self = exOak and st = emptyState and allInsts = "[exOak]"
      and pl = "buildPlacementsByBox \<lparr> trees = [exFullTree\<lparr> tree_left := [] \<rparr>] \<rparr>"] p2
  have b: "fst (countMatches exOak (exCond\<lparr> fullTree := True \<rparr>) [exOak]
         (buildPlacementsByBox \<lparr> trees = [exFullTree\<lparr> tree_left := [] \<rparr>] \<rparr>) False
         (Some (mostResolverFor exPools 0)) emptyState) = 0"
    by simp
  from a b show ?thesis by simp
qed

section \<open>Cross-player winners\<close>











section \<open>The cross-player count and the pool filter\<close>

text \<open>
  C2 (the code at the failing input). On a pool that holds one instance whose joker type
  is the condition's type, the pool filter of \<open>countMatches\<close> keeps the instance, while
  \<open>countForMostKey\<close> counts none: it has no joker short-circuit. The player is then no
  winner and the gated count is 0.
\<close>

theorem most_count_omits_joker:
  "most exMostLinde
   \<and> length (filterCards exJoker [exJoker] exMostLinde) = 1
   \<and> countForMostKey (makeMostKey exJoker exMostLinde) [exJoker] exMostLinde = 0
   \<and> fst (countMatches exJoker exMostLinde [exJoker] Map.empty False
            (Some (mostResolverFor [[exJoker]] 0)) emptyState) = 0"
  by code_simp

section \<open>One result per player\<close>

lemma scorePlayer_name: "res_name (fst (scorePlayer pools players i p st)) = pname (players ! i)"
  by (simp add: scorePlayer_def Let_def split: option.splits)

lemma scorePlayer_no_forest:
  "pp_forest p = None \<Longrightarrow>
   fst (scorePlayer pools players i p st) = \<lparr> res_name = pname (players ! i), totalScore = 0, cardDetails = [] \<rparr>"
  by (simp add: scorePlayer_def Let_def)

lemma length_scorePlayers: "length (scorePlayers pools players ips st) = length ips"
  by (induction ips arbitrary: st) (simp_all add: Let_def)

lemma scorePlayers_nth:
  "k < length ips \<Longrightarrow>
   \<exists>st'. scorePlayers pools players ips st ! k = fst (scorePlayer pools players (fst (ips ! k)) (snd (ips ! k)) st')"
proof (induction ips arbitrary: st k)
  case Nil
  then show ?case by simp
next
  case (Cons ip rest)
  show ?case
  proof (cases k)
    case 0
    then show ?thesis by (auto simp: Let_def)
  next
    case (Suc j)
    with Cons.prems have "j < length rest" by simp
    from Cons.IH [OF this] Suc show ?thesis by (simp add: Let_def)
  qed
qed

lemma prepare_empty: "pcards p = [] \<Longrightarrow> pp_forest (prepare cfg (i, p)) = None"
  by (simp add: prepare_def)

text \<open>
  C10. \<open>score\<close> returns one result per player, in the order of the input and under the
  input's names; a player without cards gets total 0 and no card details.
\<close>

theorem score_one_result_per_player:
  "length (score cfg players) = length players
   \<and> map res_name (score cfg players) = map pname players
   \<and> (\<forall>i < length players. pcards (players ! i) = [] \<longrightarrow>
         score cfg players ! i = \<lparr> res_name = pname (players ! i), totalScore = 0, cardDetails = [] \<rparr>)"
proof -
  define prepared where "prepared = map (prepare cfg) (List.enumerate 0 players)"
  define ips where "ips = List.enumerate 0 prepared"
  have sc: "score cfg players = scorePlayers (map pp_all prepared) players ips emptyState"
    by (simp add: score_def prepared_def ips_def Let_def)
  have len: "length ips = length players" by (simp add: ips_def prepared_def)
  have l: "length (score cfg players) = length players"
    by (simp add: sc length_scorePlayers len)
  have ip: "ips ! k = (k, prepare cfg (k, players ! k))" if "k < length players" for k
    using that by (simp add: ips_def prepared_def nth_enumerate_eq)
  have nm: "res_name (score cfg players ! k) = pname (players ! k)" if "k < length players" for k
  proof -
    from that len have "k < length ips" by simp
    from scorePlayers_nth [OF this, of "map pp_all prepared" players emptyState]
    obtain st' where "score cfg players ! k =
        fst (scorePlayer (map pp_all prepared) players (fst (ips ! k)) (snd (ips ! k)) st')"
      unfolding sc by blast
    then show ?thesis by (simp add: scorePlayer_name ip [OF that])
  qed
  have names: "map res_name (score cfg players) = map pname players"
    by (rule nth_equalityI) (simp_all add: l nm)
  have empty: "\<forall>i < length players. pcards (players ! i) = [] \<longrightarrow>
         score cfg players ! i = \<lparr> res_name = pname (players ! i), totalScore = 0, cardDetails = [] \<rparr>"
  proof (intro allI impI)
    fix i assume i: "i < length players" and e: "pcards (players ! i) = []"
    from i len have "i < length ips" by simp
    from scorePlayers_nth [OF this, of "map pp_all prepared" players emptyState]
    obtain st' where "score cfg players ! i =
        fst (scorePlayer (map pp_all prepared) players (fst (ips ! i)) (snd (ips ! i)) st')"
      unfolding sc by blast
    then show "score cfg players ! i = \<lparr> res_name = pname (players ! i), totalScore = 0, cardDetails = [] \<rparr>"
      by (simp add: ip [OF i] scorePlayer_no_forest prepare_empty [OF e])
  qed
  from l names empty show ?thesis by blast
qed

theorem score_one_result_per_player_witness:
  "map res_name (score exCfg [\<lparr> pname = ''Alice'', pcards = [] \<rparr>,
                              \<lparr> pname = ''Bob'', pcards = [exCard ''oak:oak'' 0 0 1 1] \<rparr>]) = [''Alice'', ''Bob'']
   \<and> score exCfg [\<lparr> pname = ''Alice'', pcards = [] \<rparr>,
                   \<lparr> pname = ''Bob'', pcards = [exCard ''oak:oak'' 0 0 1 1] \<rparr>] ! 0
       = \<lparr> res_name = ''Alice'', totalScore = 0, cardDetails = [] \<rparr>"
  using score_one_result_per_player [of exCfg "[\<lparr> pname = ''Alice'', pcards = [] \<rparr>,
                              \<lparr> pname = ''Bob'', pcards = [exCard ''oak:oak'' 0 0 1 1] \<rparr>]"]
  by simp

section \<open>Cards outside every tree\<close>

text \<open>
  C1 (the code at the failing input). One detected card, labelled \<open>ghost:oak\<close>: the label
  has a separator and the id \<open>ghost\<close> is not configured. No tree is built, so
  \<open>allCardInstances\<close> is empty and the player's \<open>cardDetails\<close> are empty: the card has no
  entry.
\<close>

theorem isolated_card_dropped:
  "indexOf ''ghost:oak'' CHR '':'' = Some 5
   \<and> map_of (map (\<lambda>c. (def_id c, c)) (cards exCards)) ''ghost'' = None
   \<and> score exCards [exGhostPlayer] = [\<lparr> res_name = ''Alice'', totalScore = 0, cardDetails = [] \<rparr>]"
  by code_simp

section \<open>Attachments are placed once\<close>

definition chainRefs :: "Chain \<Rightarrow> ObjRef multiset" where
  "chainRefs ch = mset (map iref (attached ch)) + mset (map iref (remaining ch))"

lemma mset_removeFirstRef:
  "r \<in> set (map iref cs) \<Longrightarrow>
   add_mset r (mset (map iref (removeFirstRef r cs))) = mset (map iref cs)"
  by (induction cs) auto

lemma moveOne_refs: "chainRefs (moveOne c ch) = chainRefs ch"
proof (cases "memRef c (remaining ch)")
  case True
  then have "add_mset (iref c) (mset (map iref (removeFirstRef (iref c) (remaining ch))))
               = mset (map iref (remaining ch))"
    by (intro mset_removeFirstRef) (simp add: memRef_def)
  with True show ?thesis by (simp add: moveOne_def chainRefs_def)
next
  case False
  then show ?thesis by (simp add: moveOne_def)
qed

lemma fold_moveOne_refs: "chainRefs (fold moveOne cs ch) = chainRefs ch"
  by (induction cs arbitrary: ch) (simp_all add: moveOne_refs)

lemma expandLoop_refs: "chainRefs (expandLoop side ch) = chainRefs ch"
proof (induction side ch rule: expandLoop.induct)
  case (1 side ch)
  show ?case
  proof (cases "length (nextRound side ch) = 0")
    case True
    then show ?thesis by (subst expandLoop.simps) (simp add: Let_def)
  next
    case False
    have "expandLoop side ch = expandLoop side (fold moveOne (nextRound side ch) ch)"
      using False by (subst expandLoop.simps) (simp add: Let_def)
    also have "chainRefs \<dots> = chainRefs (fold moveOne (nextRound side ch) ch)"
      using False by (intro "1.IH") simp_all
    finally show ?thesis by (simp add: fold_moveOne_refs)
  qed
qed

lemma expandSideChain_refs:
  "mset (map iref (fst (expandSideChain b side att rem))) + mset (map iref (snd (expandSideChain b side att rem)))
     = mset (map iref att) + mset (map iref rem)"
  using expandLoop_refs [of side "\<lparr> anchors = b # map box att, attached = att, remaining = rem \<rparr>"]
  by (simp add: expandSideChain_def chainRefs_def Let_def)

text \<open>
  The invariant of the layout builder, for the set \<open>K\<close> of the trees' references: the
  side lists under keys of \<open>K\<close> and the pool of unattached instances hold every reference
  at most once between them.
\<close>

definition sidesOk :: "ObjRef set \<Rightarrow> SideMaps \<Rightarrow> CardInstance list \<Rightarrow> bool" where
  "sidesOk K maps rem \<longleftrightarrow>
     distinct (map iref rem) \<and>
     (\<forall>s k. k \<in> K \<longrightarrow> distinct (map iref (maps s k))) \<and>
     (\<forall>s k. k \<in> K \<longrightarrow> iref ` set (maps s k) \<inter> iref ` set rem = {}) \<and>
     (\<forall>s k s' k'. k \<in> K \<longrightarrow> k' \<in> K \<longrightarrow> (s \<noteq> s' \<or> k \<noteq> k') \<longrightarrow>
        iref ` set (maps s k) \<inter> iref ` set (maps s' k') = {})"

lemma sidesOkI:
  assumes "distinct (map iref rem)"
      and "\<And>s k. k \<in> K \<Longrightarrow> distinct (map iref (maps s k))"
      and "\<And>s k. k \<in> K \<Longrightarrow> iref ` set (maps s k) \<inter> iref ` set rem = {}"
      and "\<And>s k s' k'. k \<in> K \<Longrightarrow> k' \<in> K \<Longrightarrow> s \<noteq> s' \<or> k \<noteq> k' \<Longrightarrow>
             iref ` set (maps s k) \<inter> iref ` set (maps s' k') = {}"
  shows "sidesOk K maps rem"
  unfolding sidesOk_def using assms by (intro conjI allI impI)

lemma sidesOk_rem: "sidesOk K maps rem \<Longrightarrow> distinct (map iref rem)"
  by (simp add: sidesOk_def)

lemma sidesOk_list: "sidesOk K maps rem \<Longrightarrow> k \<in> K \<Longrightarrow> distinct (map iref (maps s k))"
  by (simp add: sidesOk_def)

lemma sidesOk_list_rem:
  "sidesOk K maps rem \<Longrightarrow> k \<in> K \<Longrightarrow> iref ` set (maps s k) \<inter> iref ` set rem = {}"
  by (simp add: sidesOk_def)

lemma sidesOk_lists:
  "sidesOk K maps rem \<Longrightarrow> k \<in> K \<Longrightarrow> k' \<in> K \<Longrightarrow> s \<noteq> s' \<or> k \<noteq> k' \<Longrightarrow>
   iref ` set (maps s k) \<inter> iref ` set (maps s' k') = {}"
  by (simp add: sidesOk_def)

lemma sidesOk_append:
  assumes ok: "sidesOk K maps (c # todo)"
  shows "sidesOk K (setSideList maps tree side (sideListFor maps tree side @ [c])) todo"
proof -
  define k0 where "k0 = iref tree"
  define maps' where "maps' = setSideList maps tree side (sideListFor maps tree side @ [c])"
  have upd: "maps' s k = (if s = side \<and> k = k0 then maps side k0 @ [c] else maps s k)" for s k
    by (simp add: maps'_def setSideList_def sideListFor_def k0_def)
  from sidesOk_rem [OF ok] have d: "distinct (map iref todo)" and cn: "iref c \<notin> iref ` set todo"
    by simp_all
  note e = sidesOk_list [OF ok]
  note fg = sidesOk_list_rem [OF ok]
  note j = sidesOk_lists [OF ok]
  have f: "iref c \<notin> iref ` set (maps s k)" if "k \<in> K" for s k
    using fg [OF that, of s] by simp
  have g: "iref ` set (maps s k) \<inter> iref ` set todo = {}" if "k \<in> K" for s k
    using fg [OF that, of s] by simp
  show ?thesis
    unfolding maps'_def [symmetric]
  proof (rule sidesOkI)
    show "distinct (map iref todo)" by (rule d)
  next
    fix s k assume k: "k \<in> K"
    show "distinct (map iref (maps' s k))"
      using e [OF k, of s] f [OF k, of s] by (auto simp: upd)
    show "iref ` set (maps' s k) \<inter> iref ` set todo = {}"
      using g [OF k, of s] cn by (auto simp: upd)
  next
    fix s s' :: Side and k k' :: ObjRef
    assume k: "k \<in> K" and k': "k' \<in> K" and ne: "s \<noteq> s' \<or> k \<noteq> k'"
    show "iref ` set (maps' s k) \<inter> iref ` set (maps' s' k') = {}"
    proof (cases "s = side \<and> k = k0")
      case True
      with ne have "\<not> (s' = side \<and> k' = k0)" by auto
      with True j [OF k k' ne] f [OF k', of s'] show ?thesis by (auto simp: upd)
    next
      case False
      with j [OF k k' ne] f [OF k, of s] show ?thesis by (auto simp: upd)
    qed
  qed
qed

lemma sidesOk_drop:
  assumes ok: "sidesOk K maps (c # todo)"
  shows "sidesOk K maps todo"
proof (rule sidesOkI)
  show "distinct (map iref todo)" using sidesOk_rem [OF ok] by simp
next
  fix s k assume k: "k \<in> K"
  show "distinct (map iref (maps s k))" by (rule sidesOk_list [OF ok k])
  show "iref ` set (maps s k) \<inter> iref ` set todo = {}"
    using sidesOk_list_rem [OF ok k, of s] by simp
next
  fix s s' :: Side and k k' :: ObjRef
  assume "k \<in> K" "k' \<in> K" "s \<noteq> s' \<or> k \<noteq> k'"
  then show "iref ` set (maps s k) \<inter> iref ` set (maps s' k') = {}"
    by (rule sidesOk_lists [OF ok])
qed

lemma placeDirect_ok: "sidesOk K maps (c # todo) \<Longrightarrow> sidesOk K (placeDirect T c maps) todo"
  by (simp add: placeDirect_def sidesOk_drop sidesOk_append split: option.splits)

lemma directPlacement_fold_ok:
  "sidesOk K maps cs \<Longrightarrow> sidesOk K (fold (placeDirect T) cs maps) []"
  by (induction cs arbitrary: maps) (simp_all add: placeDirect_ok)

lemma directPlacement_ok:
  "distinct (map iref cs) \<Longrightarrow> sidesOk K (directPlacement T cs) []"
  unfolding directPlacement_def
  by (rule directPlacement_fold_ok) (simp add: sidesOk_def)

lemma placedIn_covers:
  "t \<in> set T \<Longrightarrow> set (maps s (iref t)) \<subseteq> set (placedIn maps T)"
  by (cases s) (auto simp: placedIn_def allSides_def)

lemma sidesOk_filter:
  assumes ok: "sidesOk (iref ` set T) maps []" and dc: "distinct (map iref cs)"
  shows "sidesOk (iref ` set T) maps (filter (\<lambda>c. \<not> memRef c (placedIn maps T)) cs)"
proof (rule sidesOkI)
  show "distinct (map iref (filter (\<lambda>c. \<not> memRef c (placedIn maps T)) cs))"
    using dc by (rule distinct_map_filter)
next
  fix s k assume k: "k \<in> iref ` set T"
  show "distinct (map iref (maps s k))" by (rule sidesOk_list [OF ok k])
  from k obtain t where t: "t \<in> set T" "k = iref t" by blast
  have "iref ` set (maps s (iref t)) \<subseteq> iref ` set (placedIn maps T)"
    using placedIn_covers [OF t(1), of maps s] by blast
  moreover have "iref ` set (filter (\<lambda>c. \<not> memRef c (placedIn maps T)) cs) \<inter> iref ` set (placedIn maps T) = {}"
    by (auto simp: memRef_def)
  ultimately show "iref ` set (maps s k) \<inter> iref ` set (filter (\<lambda>c. \<not> memRef c (placedIn maps T)) cs) = {}"
    unfolding t(2) by blast
next
  fix s s' :: Side and k k' :: ObjRef
  assume "k \<in> iref ` set T" "k' \<in> iref ` set T" "s \<noteq> s' \<or> k \<noteq> k'"
  then show "iref ` set (maps s k) \<inter> iref ` set (maps s' k') = {}"
    by (rule sidesOk_lists [OF ok])
qed

lemma sidesOk_expandSide:
  assumes ok: "sidesOk K (fst acc) (snd acc)" and k0: "iref t \<in> K"
  shows "sidesOk K (fst (expandSide t side acc)) (snd (expandSide t side acc))"
proof -
  define maps where "maps = fst acc"
  define rem where "rem = snd acc"
  define att where "att = maps side (iref t)"
  define r where "r = expandSideChain (box t) side att rem"
  define maps' where "maps' = setSideList maps t side (fst r)"
  have res: "expandSide t side acc = (maps', snd r)"
    by (simp add: expandSide_def Let_def maps'_def r_def att_def maps_def rem_def sideListFor_def)
  have upd: "maps' s k = (if s = side \<and> k = iref t then fst r else maps s k)" for s k
    by (simp add: maps'_def setSideList_def)
  have cons: "mset (map iref (fst r)) + mset (map iref (snd r)) = mset (map iref att) + mset (map iref rem)"
    unfolding r_def by (rule expandSideChain_refs)
  then have cons': "mset (map iref (fst r @ snd r)) = mset (map iref (att @ rem))" by simp
  have sets: "iref ` set (fst r) \<union> iref ` set (snd r) = iref ` set att \<union> iref ` set rem"
    using mset_eq_setD [OF cons'] by (simp add: image_Un)
  from ok have ok': "sidesOk K maps rem" by (simp add: maps_def rem_def)
  note d = sidesOk_rem [OF ok']
  note e = sidesOk_list [OF ok']
  note g = sidesOk_list_rem [OF ok']
  note j = sidesOk_lists [OF ok']
  have "distinct (map iref (att @ rem))"
    using d e [OF k0, of side] g [OF k0, of side] by (simp add: att_def)
  then have dr: "distinct (map iref (fst r @ snd r))"
    using mset_eq_imp_distinct_iff [OF cons'] by blast
  then have d1: "distinct (map iref (fst r))" and d2: "distinct (map iref (snd r))"
    and d3: "iref ` set (fst r) \<inter> iref ` set (snd r) = {}"
    by simp_all
  have other: "iref ` set (maps u q) \<inter> (iref ` set (fst r) \<union> iref ` set (snd r)) = {}"
    if "q \<in> K" "u \<noteq> side \<or> q \<noteq> iref t" for u q
    using j [OF that(1) k0 that(2)] g [OF that(1), of u] unfolding sets att_def by blast
  have "sidesOk K maps' (snd r)"
  proof (rule sidesOkI)
    show "distinct (map iref (snd r))" by (rule d2)
  next
    fix s k assume k: "k \<in> K"
    show "distinct (map iref (maps' s k))"
      using e [OF k, of s] d1 by (simp add: upd)
    show "iref ` set (maps' s k) \<inter> iref ` set (snd r) = {}"
    proof (cases "s = side \<and> k = iref t")
      case True
      then show ?thesis using d3 by (simp add: upd)
    next
      case False
      then have "s \<noteq> side \<or> k \<noteq> iref t" by blast
      from other [OF k this] False show ?thesis by (auto simp: upd)
    qed
  next
    fix s s' :: Side and k k' :: ObjRef
    assume k: "k \<in> K" and k': "k' \<in> K" and ne: "s \<noteq> s' \<or> k \<noteq> k'"
    show "iref ` set (maps' s k) \<inter> iref ` set (maps' s' k') = {}"
    proof (cases "s = side \<and> k = iref t")
      case True
      with ne have n: "s' \<noteq> side \<or> k' \<noteq> iref t" by blast
      from other [OF k' n] have "iref ` set (fst r) \<inter> iref ` set (maps s' k') = {}" by blast
      with True n show ?thesis by (auto simp: upd)
    next
      case False
      then have n1: "s \<noteq> side \<or> k \<noteq> iref t" by blast
      show ?thesis
      proof (cases "s' = side \<and> k' = iref t")
        case True
        from other [OF k n1] have "iref ` set (maps s k) \<inter> iref ` set (fst r) = {}" by blast
        with True n1 show ?thesis by (auto simp: upd)
      next
        case False
        with n1 j [OF k k' ne] show ?thesis by (auto simp: upd)
      qed
    qed
  qed
  then show ?thesis by (simp add: res)
qed

lemma sidesOk_expandTree:
  assumes "sidesOk K (fst acc) (snd acc)" and "iref t \<in> K"
  shows "sidesOk K (fst (expandTree t acc)) (snd (expandTree t acc))"
  unfolding expandTree_def
  by (intro sidesOk_expandSide assms)

lemma sidesOk_fold_expandTree:
  "sidesOk K (fst acc) (snd acc) \<Longrightarrow> iref ` set ts \<subseteq> K \<Longrightarrow>
   sidesOk K (fst (fold expandTree ts acc)) (snd (fold expandTree ts acc))"
  by (induction ts arbitrary: acc) (simp_all add: sidesOk_expandTree)

lemma sidesOk_chainExpansion:
  assumes "distinct (map iref cs)"
  shows "sidesOk (iref ` set T) (fst (chainExpansion T cs (directPlacement T cs)))
           (snd (chainExpansion T cs (directPlacement T cs)))"
  unfolding chainExpansion_def Let_def
  by (rule sidesOk_fold_expandTree)
    (simp_all add: sidesOk_filter directPlacement_ok assms)

definition attachments :: "Tree \<Rightarrow> CardInstance list" where
  "attachments tree = tree_top tree @ tree_left tree @ tree_right tree @ tree_bottom tree"

lemma attachments_treeOf_distinct:
  assumes ok: "sidesOk K maps rem" and k: "iref t \<in> K"
  shows "distinct (map iref (attachments (treeOf maps t)))"
  using sidesOk_list [OF ok k]
    sidesOk_lists [OF ok k k, of STop SLeft] sidesOk_lists [OF ok k k, of STop SRight]
    sidesOk_lists [OF ok k k, of STop SBottom] sidesOk_lists [OF ok k k, of SLeft SRight]
    sidesOk_lists [OF ok k k, of SLeft SBottom] sidesOk_lists [OF ok k k, of SRight SBottom]
  by (simp add: attachments_def treeOf_def Int_Un_distrib Int_Un_distrib2)

lemma attachments_treeOf_disjoint:
  assumes ok: "sidesOk K maps rem" and k: "iref t \<in> K" and k': "iref u \<in> K"
      and ne: "iref t \<noteq> iref u"
  shows "iref ` set (attachments (treeOf maps t)) \<inter> iref ` set (attachments (treeOf maps u)) = {}"
proof -
  have "iref ` set (maps s (iref t)) \<inter> iref ` set (maps s' (iref u)) = {}" for s s'
    using sidesOk_lists [OF ok k k', of s s'] ne by simp
  then show ?thesis
    by (simp add: attachments_def treeOf_def image_Un Int_Un_distrib Int_Un_distrib2)
qed

lemma forest_attachments_distinct:
  assumes ok: "sidesOk K maps rem"
  shows "iref ` set ts \<subseteq> K \<Longrightarrow> distinct (map iref ts) \<Longrightarrow>
         distinct (map iref (concat (map (\<lambda>t. attachments (treeOf maps t)) ts)))"
proof (induction ts)
  case Nil
  show ?case by simp
next
  case (Cons t ts)
  from Cons.prems have k: "iref t \<in> K" and sub: "iref ` set ts \<subseteq> K"
    and fresh: "iref t \<notin> iref ` set ts" and d: "distinct (map iref ts)"
    by simp_all
  have "iref ` set (attachments (treeOf maps t)) \<inter> iref ` set (attachments (treeOf maps u)) = {}"
    if "u \<in> set ts" for u
  proof -
    from that sub have "iref u \<in> K" by blast
    moreover from that fresh have "iref t \<noteq> iref u" by blast
    ultimately show ?thesis by (intro attachments_treeOf_disjoint [OF ok k])
  qed
  then have "iref ` set (attachments (treeOf maps t)) \<inter>
             iref ` set (concat (map (\<lambda>t. attachments (treeOf maps t)) ts)) = {}"
    by auto
  with attachments_treeOf_distinct [OF ok k] Cons.IH [OF sub d] show ?case
    by simp
qed

lemma side_row_distinct:
  assumes ok: "sidesOk K maps rem"
  shows "iref ` set ts \<subseteq> K \<Longrightarrow> distinct (map iref ts) \<Longrightarrow>
         distinct (map iref (concat (map (\<lambda>t. maps s (iref t)) ts)))"
proof (induction ts)
  case Nil
  show ?case by simp
next
  case (Cons t ts)
  from Cons.prems have k: "iref t \<in> K" and sub: "iref ` set ts \<subseteq> K"
    and fresh: "iref t \<notin> iref ` set ts" and d: "distinct (map iref ts)"
    by simp_all
  have "iref ` set (maps s (iref t)) \<inter> iref ` set (maps s (iref u)) = {}" if "u \<in> set ts" for u
  proof -
    from that sub have "iref u \<in> K" by blast
    moreover from that fresh have "s \<noteq> s \<or> iref t \<noteq> iref u" by blast
    ultimately show ?thesis by (intro sidesOk_lists [OF ok k])
  qed
  then have "iref ` set (maps s (iref t)) \<inter> iref ` set (concat (map (\<lambda>t. maps s (iref t)) ts)) = {}"
    by auto
  with sidesOk_list [OF ok k, of s] Cons.IH [OF sub d] show ?case by simp
qed

lemma side_rows_disjoint:
  assumes ok: "sidesOk K maps rem" and sub: "iref ` set ts \<subseteq> K" and ne: "s \<noteq> s'"
  shows "iref ` set (concat (map (\<lambda>t. maps s (iref t)) ts)) \<inter>
         iref ` set (concat (map (\<lambda>t. maps s' (iref t)) ts)) = {}"
proof -
  have "iref ` set (maps s (iref t)) \<inter> iref ` set (maps s' (iref u)) = {}"
    if "t \<in> set ts" "u \<in> set ts" for t u
  proof -
    from that sub have "iref t \<in> K" "iref u \<in> K" by blast+
    then show ?thesis using ne by (intro sidesOk_lists [OF ok]) simp_all
  qed
  then show ?thesis by auto
qed

lemma placedIn_distinct:
  assumes ok: "sidesOk K maps rem" and sub: "iref ` set ts \<subseteq> K" and d: "distinct (map iref ts)"
  shows "distinct (map iref (placedIn maps ts))"
  using side_row_distinct [OF ok sub d]
    side_rows_disjoint [OF ok sub, of STop SBottom] side_rows_disjoint [OF ok sub, of STop SLeft]
    side_rows_disjoint [OF ok sub, of STop SRight] side_rows_disjoint [OF ok sub, of SBottom SLeft]
    side_rows_disjoint [OF ok sub, of SBottom SRight] side_rows_disjoint [OF ok sub, of SLeft SRight]
  by (simp add: placedIn_def allSides_def image_Un Int_Un_distrib Int_Un_distrib2)

lemma parse_box: "parseCardInstance b m = Some c \<Longrightarrow> iref c = boxRef b"
  by (auto simp: parseCardInstance_def iref_def Let_def split: option.splits)

lemma parsed_refs:
  "map iref (List.map_filter (\<lambda>b. parseCardInstance b m) bs)
     = map boxRef (filter (\<lambda>b. parseCardInstance b m \<noteq> None) bs)"
  by (induction bs) (auto simp: map_filter_simps parse_box split: option.splits)

lemma treeCards_distinct: "distinct (map boxRef boxes) \<Longrightarrow> distinct (map iref (treeCardsOf boxes cfg))"
  by (simp add: treeCardsOf_def Let_def parsed_refs distinct_map_filter)

lemma cardInsts_distinct: "distinct (map boxRef boxes) \<Longrightarrow> distinct (map iref (cardInstsOf boxes cfg))"
  by (simp add: cardInstsOf_def Let_def parsed_refs distinct_map_filter)

text \<open>
  C8. In the forest built from boxes with pairwise different references (as those
  \<open>score\<close> allocates), the attachment lists of all trees, taken together, hold every card
  instance at most once: an instance is an attachment of at most one tree, on at most one
  side, at most once in that list. The same holds for the side lists after the direct
  placement of phase 1, before the chains are expanded.
\<close>

theorem attachments_placed_once:
  assumes "distinct (map boxRef boxes)"
  shows "distinct (map iref (concat (map attachments (trees (buildForest boxes cfg)))))
       \<and> distinct (map iref (placedIn (directPlacement (treeCardsOf boxes cfg) (cardInstsOf boxes cfg))
                               (treeCardsOf boxes cfg)))"
proof -
  define T where "T = treeCardsOf boxes cfg"
  define cs where "cs = cardInstsOf boxes cfg"
  define maps2 where "maps2 = fst (chainExpansion T cs (directPlacement T cs))"
  have dT: "distinct (map iref T)" unfolding T_def by (rule treeCards_distinct [OF assms])
  have dc: "distinct (map iref cs)" unfolding cs_def by (rule cardInsts_distinct [OF assms])
  have ok: "sidesOk (iref ` set T) maps2 (snd (chainExpansion T cs (directPlacement T cs)))"
    unfolding maps2_def by (rule sidesOk_chainExpansion [OF dc])
  have "concat (map attachments (trees (buildForest boxes cfg)))
          = concat (map (\<lambda>t. attachments (treeOf maps2 t)) T)"
    by (simp add: buildForest_def Let_def T_def cs_def maps2_def comp_def)
  moreover have "distinct (map iref (concat (map (\<lambda>t. attachments (treeOf maps2 t)) T)))"
    by (rule forest_attachments_distinct [OF ok _ dT]) simp
  ultimately have a: "distinct (map iref (concat (map attachments (trees (buildForest boxes cfg)))))"
    by simp
  have "sidesOk (iref ` set T) (directPlacement T cs) []"
    by (rule directPlacement_ok [OF dc])
  then have "distinct (map iref (placedIn (directPlacement T cs) T))"
    by (rule placedIn_distinct) (simp_all add: dT)
  with a show ?thesis by (simp add: T_def cs_def)
qed

lemma exChain_refs: "map boxRef exChainBoxes = [Ref 0 0, Ref 0 1, Ref 0 2]"
  by code_simp

lemma exChain_forest:
  "map (\<lambda>t. (map iref (tree_right t), map iref (tree_top t @ tree_left t @ tree_bottom t)))
     (trees (buildForest exChainBoxes exCards)) = [([Ref 0 1, Ref 0 2], [])]"
  by code_simp

lemma exChain_direct:
  "map iref (placedIn (directPlacement (treeCardsOf exChainBoxes exCards) (cardInstsOf exChainBoxes exCards))
       (treeCardsOf exChainBoxes exCards)) = [Ref 0 1]"
  by code_simp

theorem attachments_placed_once_witness:
  "distinct (map boxRef exChainBoxes)
   \<and> distinct (map iref (concat (map attachments (trees (buildForest exChainBoxes exCards)))))
   \<and> map (\<lambda>t. (map iref (tree_right t), map iref (tree_top t @ tree_left t @ tree_bottom t)))
        (trees (buildForest exChainBoxes exCards)) = [([Ref 0 1, Ref 0 2], [])]
   \<and> map iref (placedIn (directPlacement (treeCardsOf exChainBoxes exCards) (cardInstsOf exChainBoxes exCards))
       (treeCardsOf exChainBoxes exCards)) = [Ref 0 1]"
proof -
  have d: "distinct (map boxRef exChainBoxes)" by (simp add: exChain_refs)
  from attachments_placed_once [OF d, of exCards] d exChain_forest exChain_direct
  show ?thesis by simp
qed

section \<open>The cards of a forest\<close>

text \<open>
  The forest that \<open>buildForest\<close> makes of boxes with pairwise different references holds
  every instance at most once, anchors included, and instances of these boxes only; the
  display order lists the box of each of them once.
\<close>

definition chainSet :: "Chain \<Rightarrow> CardInstance set" where
  "chainSet ch = set (attached ch) \<union> set (remaining ch)"

lemma set_removeFirstRef: "set (removeFirstRef r cs) \<subseteq> set cs"
  by (induction cs) auto

lemma moveOne_within: "chainSet (moveOne c ch) \<subseteq> insert c (chainSet ch)"
  using set_removeFirstRef [of "iref c" "remaining ch"]
  by (auto simp: moveOne_def chainSet_def)

lemma fold_moveOne_within: "chainSet (fold moveOne cs ch) \<subseteq> set cs \<union> chainSet ch"
proof (induction cs arbitrary: ch)
  case Nil
  show ?case by simp
next
  case (Cons c cs)
  from Cons.IH [of "moveOne c ch"] moveOne_within [of c ch] show ?case by auto
qed

lemma expandLoop_within: "chainSet (expandLoop side ch) \<subseteq> chainSet ch"
proof (induction side ch rule: expandLoop.induct)
  case (1 side ch)
  show ?case
  proof (cases "length (nextRound side ch) = 0")
    case True
    then show ?thesis by (subst expandLoop.simps) (simp add: Let_def)
  next
    case False
    have eq: "expandLoop side ch = expandLoop side (fold moveOne (nextRound side ch) ch)"
      using False by (subst expandLoop.simps) (simp add: Let_def)
    have "chainSet (expandLoop side (fold moveOne (nextRound side ch) ch))
            \<subseteq> chainSet (fold moveOne (nextRound side ch) ch)"
      using False by (intro "1.IH") simp_all
    also have "\<dots> \<subseteq> set (nextRound side ch) \<union> chainSet ch"
      by (rule fold_moveOne_within)
    also have "\<dots> \<subseteq> chainSet ch"
      using nextRound_subset [of side ch] by (auto simp: chainSet_def)
    finally show ?thesis unfolding eq .
  qed
qed

lemma expandSideChain_within:
  "set (fst (expandSideChain b side att rem)) \<union> set (snd (expandSideChain b side att rem))
     \<subseteq> set att \<union> set rem"
  using expandLoop_within [of side "\<lparr> anchors = b # map box att, attached = att, remaining = rem \<rparr>"]
  by (simp add: expandSideChain_def chainSet_def Let_def)

text \<open>Every side list and the pool hold instances of \<open>C\<close> only.\<close>

definition sidesIn :: "CardInstance set \<Rightarrow> SideMaps \<Rightarrow> CardInstance list \<Rightarrow> bool" where
  "sidesIn C maps rem \<longleftrightarrow> (\<forall>s k. set (maps s k) \<subseteq> C) \<and> set rem \<subseteq> C"

lemma sidesInI:
  "(\<And>s k. set (maps s k) \<subseteq> C) \<Longrightarrow> set rem \<subseteq> C \<Longrightarrow> sidesIn C maps rem"
  by (simp add: sidesIn_def)

lemma sidesIn_list: "sidesIn C maps rem \<Longrightarrow> set (maps s k) \<subseteq> C"
  by (simp add: sidesIn_def)

lemma sidesIn_rem: "sidesIn C maps rem \<Longrightarrow> set rem \<subseteq> C"
  by (simp add: sidesIn_def)

lemma sidesIn_set:
  assumes "sidesIn C maps rem" and "set l \<subseteq> C" and "set rem' \<subseteq> C"
  shows "sidesIn C (setSideList maps t side l) rem'"
proof (rule sidesInI)
  fix s k
  show "set (setSideList maps t side l s k) \<subseteq> C"
    using sidesIn_list [OF assms(1), of s k] assms(2) by (auto simp: setSideList_def)
qed (rule assms(3))

lemma sidesIn_placeDirect:
  assumes "sidesIn C maps rem" and "c \<in> C"
  shows "sidesIn C (placeDirect T c maps) rem"
proof (cases "directBest c T")
  case None
  with assms(1) show ?thesis by (simp add: placeDirect_def)
next
  case (Some best)
  have "set (sideListFor maps (cand_tree best) (cand_side best) @ [c]) \<subseteq> C"
    using sidesIn_list [OF assms(1), of "cand_side best" "iref (cand_tree best)"] assms(2)
    by (simp add: sideListFor_def)
  from sidesIn_set [OF assms(1) this sidesIn_rem [OF assms(1)]] Some show ?thesis
    by (simp add: placeDirect_def)
qed

lemma sidesIn_fold_placeDirect:
  "sidesIn C maps rem \<Longrightarrow> set cs \<subseteq> C \<Longrightarrow> sidesIn C (fold (placeDirect T) cs maps) rem"
  by (induction cs arbitrary: maps) (simp_all add: sidesIn_placeDirect)

lemma sidesIn_expandSide:
  assumes "sidesIn C (fst acc) (snd acc)"
  shows "sidesIn C (fst (expandSide t side acc)) (snd (expandSide t side acc))"
proof -
  define r where "r = expandSideChain (box t) side (fst acc side (iref t)) (snd acc)"
  have "set (fst r) \<union> set (snd r) \<subseteq> set (fst acc side (iref t)) \<union> set (snd acc)"
    unfolding r_def by (rule expandSideChain_within)
  also have "\<dots> \<subseteq> C"
    using sidesIn_list [OF assms, of side "iref t"] sidesIn_rem [OF assms] by simp
  finally have "set (fst r) \<subseteq> C" "set (snd r) \<subseteq> C" by simp_all
  from sidesIn_set [OF assms this] show ?thesis
    by (simp add: expandSide_def Let_def sideListFor_def r_def)
qed

lemma sidesIn_expandTree:
  "sidesIn C (fst acc) (snd acc) \<Longrightarrow> sidesIn C (fst (expandTree t acc)) (snd (expandTree t acc))"
  unfolding expandTree_def by (intro sidesIn_expandSide)

lemma sidesIn_fold_expandTree:
  "sidesIn C (fst acc) (snd acc) \<Longrightarrow>
   sidesIn C (fst (fold expandTree ts acc)) (snd (fold expandTree ts acc))"
  by (induction ts arbitrary: acc) (simp_all add: sidesIn_expandTree)

lemma sidesIn_chainExpansion:
  "sidesIn (set cs) (fst (chainExpansion T cs (directPlacement T cs)))
     (snd (chainExpansion T cs (directPlacement T cs)))"
proof -
  have "sidesIn (set cs) (directPlacement T cs) []"
    unfolding directPlacement_def
    by (rule sidesIn_fold_placeDirect) (simp_all add: sidesIn_def)
  then have "sidesIn (set cs) (directPlacement T cs)
               (filter (\<lambda>c. \<not> memRef c (placedIn (directPlacement T cs) T)) cs)"
    by (simp add: sidesIn_def)
  then show ?thesis
    unfolding chainExpansion_def Let_def by (intro sidesIn_fold_expandTree) simp
qed

lemma parsed_ref_set:
  "iref ` set (List.map_filter (\<lambda>b. parseCardInstance b m) bs) \<subseteq> boxRef ` set bs"
proof -
  have "set (map iref (List.map_filter (\<lambda>b. parseCardInstance b m) bs))
          = set (map boxRef (filter (\<lambda>b. parseCardInstance b m \<noteq> None) bs))"
    by (simp only: parsed_refs)
  then show ?thesis by auto
qed

lemma partition_disjoint:
  assumes "distinct (map boxRef boxes)"
  shows "iref ` set (treeCardsOf boxes cfg) \<inter> iref ` set (cardInstsOf boxes cfg) = {}"
proof -
  define P where "P = (\<lambda>b. case labelPrefix b of None \<Rightarrow> False | Some i \<Rightarrow> i \<in> set (treeIdsOf cfg))"
  define Q where "Q = (\<lambda>b. case labelPrefix b of None \<Rightarrow> True | Some i \<Rightarrow> i \<notin> set (treeIdsOf cfg))"
  have inj: "inj_on boxRef (set boxes)"
    using assms by (simp add: distinct_map)
  have t: "iref ` set (treeCardsOf boxes cfg) \<subseteq> boxRef ` set (filter P boxes)"
    unfolding treeCardsOf_def Let_def P_def by (rule parsed_ref_set)
  have c: "iref ` set (cardInstsOf boxes cfg) \<subseteq> boxRef ` set (filter Q boxes)"
    unfolding cardInstsOf_def Let_def Q_def by (rule parsed_ref_set)
  have pq: "\<not> (P b \<and> Q b)" for b
    by (simp add: P_def Q_def split: option.splits)
  have "boxRef ` set (filter P boxes) \<inter> boxRef ` set (filter Q boxes) = {}"
  proof (rule ccontr)
    assume "boxRef ` set (filter P boxes) \<inter> boxRef ` set (filter Q boxes) \<noteq> {}"
    then obtain a b where a: "a \<in> set boxes" "P a" and b: "b \<in> set boxes" "Q b"
      and eq: "boxRef a = boxRef b"
      by auto
    from inj_onD [OF inj eq a(1) b(1)] a(2) b(2) pq [of a] show False by simp
  qed
  with t c show ?thesis by blast
qed

lemma treeInstances_treeOf:
  "treeInstances (treeOf maps t) = t # attachments (treeOf maps t)"
  by (simp add: treeInstances_def attachments_def treeOf_def)

lemma forest_instances_distinct:
  assumes ok: "sidesOk K maps rem" and inn: "sidesIn C maps rem" and dis: "K \<inter> iref ` C = {}"
  shows "iref ` set ts \<subseteq> K \<Longrightarrow> distinct (map iref ts) \<Longrightarrow>
         distinct (map iref (concat (map (\<lambda>t. treeInstances (treeOf maps t)) ts)))"
proof (induction ts)
  case Nil
  show ?case by simp
next
  case (Cons t ts)
  from Cons.prems have k: "iref t \<in> K" and sub: "iref ` set ts \<subseteq> K"
    and fresh: "iref t \<notin> iref ` set ts" and d: "distinct (map iref ts)"
    by simp_all
  have att: "iref ` set (attachments (treeOf maps u)) \<subseteq> iref ` C" for u
    using sidesIn_list [OF inn, of STop "iref u"] sidesIn_list [OF inn, of SLeft "iref u"]
      sidesIn_list [OF inn, of SRight "iref u"] sidesIn_list [OF inn, of SBottom "iref u"]
    by (auto simp: attachments_def treeOf_def)
  have rest: "iref ` set (concat (map (\<lambda>t. treeInstances (treeOf maps t)) ts))
                = iref ` set ts \<union> (\<Union>u \<in> set ts. iref ` set (attachments (treeOf maps u)))"
    by (auto simp: treeInstances_treeOf)
  have a1: "iref t \<notin> iref ` set (attachments (treeOf maps t))"
    using att [of t] k dis by blast
  have a2: "iref t \<notin> iref ` set (concat (map (\<lambda>t. treeInstances (treeOf maps t)) ts))"
    unfolding rest using fresh att k dis by blast
  have a3: "iref ` set (attachments (treeOf maps t)) \<inter>
            iref ` set (concat (map (\<lambda>t. treeInstances (treeOf maps t)) ts)) = {}"
  proof -
    have "iref ` set (attachments (treeOf maps t)) \<inter> iref ` set (attachments (treeOf maps u)) = {}"
      if "u \<in> set ts" for u
    proof -
      from that sub have "iref u \<in> K" by blast
      moreover from that fresh have "iref t \<noteq> iref u" by blast
      ultimately show ?thesis by (intro attachments_treeOf_disjoint [OF ok k])
    qed
    moreover have "iref ` set (attachments (treeOf maps t)) \<inter> iref ` set ts = {}"
      using att [of t] sub dis by blast
    ultimately show ?thesis unfolding rest by blast
  qed
  from a1 a2 a3 attachments_treeOf_distinct [OF ok k] Cons.IH [OF sub d] show ?case
    by (simp add: treeInstances_treeOf)
qed

lemma buildForest_instances:
  assumes "distinct (map boxRef boxes)"
  shows "distinct (map iref (concat (map treeInstances (trees (buildForest boxes cfg)))))"
    and "set (concat (map treeInstances (trees (buildForest boxes cfg))))
           \<subseteq> set (treeCardsOf boxes cfg) \<union> set (cardInstsOf boxes cfg)"
proof -
  define T where "T = treeCardsOf boxes cfg"
  define cs where "cs = cardInstsOf boxes cfg"
  define maps2 where "maps2 = fst (chainExpansion T cs (directPlacement T cs))"
  define rem2 where "rem2 = snd (chainExpansion T cs (directPlacement T cs))"
  have dT: "distinct (map iref T)" unfolding T_def by (rule treeCards_distinct [OF assms])
  have dc: "distinct (map iref cs)" unfolding cs_def by (rule cardInsts_distinct [OF assms])
  have ok: "sidesOk (iref ` set T) maps2 rem2"
    unfolding maps2_def rem2_def by (rule sidesOk_chainExpansion [OF dc])
  have inn: "sidesIn (set cs) maps2 rem2"
    unfolding maps2_def rem2_def by (rule sidesIn_chainExpansion)
  have dis: "iref ` set T \<inter> iref ` set cs = {}"
    unfolding T_def cs_def by (rule partition_disjoint [OF assms])
  have eq: "concat (map treeInstances (trees (buildForest boxes cfg)))
          = concat (map (\<lambda>t. treeInstances (treeOf maps2 t)) T)"
    by (simp add: buildForest_def Let_def T_def cs_def maps2_def comp_def)
  show "distinct (map iref (concat (map treeInstances (trees (buildForest boxes cfg)))))"
    unfolding eq by (rule forest_instances_distinct [OF ok inn dis _ dT]) simp
  have "set (attachments (treeOf maps2 t)) \<subseteq> set cs" for t
    using sidesIn_list [OF inn, of STop "iref t"] sidesIn_list [OF inn, of SLeft "iref t"]
      sidesIn_list [OF inn, of SRight "iref t"] sidesIn_list [OF inn, of SBottom "iref t"]
    by (auto simp: attachments_def treeOf_def)
  then show "set (concat (map treeInstances (trees (buildForest boxes cfg))))
           \<subseteq> set (treeCardsOf boxes cfg) \<union> set (cardInstsOf boxes cfg)"
    unfolding eq T_def [symmetric] cs_def [symmetric] by (auto simp: treeInstances_treeOf)
qed

subsection \<open>The display order lists every box of the forest once\<close>

lemma mset_insertBy: "mset (insertBy cmp x xs) = add_mset x (mset xs)"
  by (induction xs) simp_all

lemma mset_sortBy: "mset (sortBy cmp xs) = mset xs"
  by (induction xs) (simp_all add: sortBy_def mset_insertBy)

lemma set_sortBy: "set (sortBy cmp xs) = set xs"
  using mset_eq_setD [OF mset_sortBy] .

lemma set_sortTreesVisually: "set (sortTreesVisually ts) = set ts"
  by (simp add: sortTreesVisually_def Let_def set_sortBy)










subsection \<open>The entries of one player\<close>

lemma dedupRef_distinct:
  "distinct (map iref cs) \<Longrightarrow> set seen \<inter> iref ` set cs = {} \<Longrightarrow> dedupRef seen cs = cs"
  by (induction cs arbitrary: seen) auto

lemma allCardInstances_concat:
  "distinct (map iref (concat (map treeInstances (trees F)))) \<Longrightarrow>
   allCardInstances F = concat (map treeInstances (trees F))"
  by (simp add: allCardInstances_def dedupRef_distinct)



definition scoreStep ::
  "CardInstance list \<Rightarrow> (ObjRef \<rightharpoonup> Placement) \<Rightarrow> MostResolver \<Rightarrow> CardInstance \<Rightarrow>
   (ObjRef \<rightharpoonup> int \<times> string) \<times> ScoreState \<Rightarrow> (ObjRef \<rightharpoonup> int \<times> string) \<times> ScoreState" where
  "scoreStep allInsts placementsByBox mostResolver inst acc =
     (let r = scoreInstanceWithReason inst allInsts placementsByBox False (Some mostResolver) (snd acc)
      in ((fst acc)(iref inst \<mapsto> fst r), snd r))"

lemma scoreAll_fold:
  "scoreAll allInsts P R st = fold (scoreStep allInsts P R) allInsts (Map.empty, st)"
  by (simp add: scoreAll_def scoreStep_def [abs_def])

lemma scoreStep_other:
  "r \<notin> iref ` set cs \<Longrightarrow> fst (fold (scoreStep allInsts P R) cs acc) r = fst acc r"
  by (induction cs arbitrary: acc) (auto simp: scoreStep_def Let_def)

lemma scoreStep_lookup:
  "distinct (map iref cs) \<Longrightarrow> c \<in> set cs \<Longrightarrow>
   \<exists>st'. fst (fold (scoreStep allInsts P R) cs acc) (iref c)
           = Some (fst (scoreInstanceWithReason c allInsts P False (Some R) st'))"
proof (induction cs arbitrary: acc)
  case Nil
  then show ?case by simp
next
  case (Cons a cs)
  show ?case
  proof (cases "c \<in> set cs")
    case True
    from Cons.prems(1) have "distinct (map iref cs)" by simp
    from Cons.IH [OF this True] show ?thesis by simp
  next
    case False
    with Cons.prems have ca: "c = a" and fresh: "iref a \<notin> iref ` set cs" by auto
    show ?thesis
      by (rule exI [of _ "snd acc"]) (simp add: ca scoreStep_other [OF fresh], simp add: scoreStep_def Let_def)
  qed
qed

lemma dom_indexTree:
  "dom (indexTree ti m) = dom m \<union> iref ` set (treeInstances (fst ti))"
proof -
  have "dom (fold (\<lambda>c m'. m'(iref c \<mapsto> n)) cs m') = dom m' \<union> iref ` set cs" for cs n and m' :: "ObjRef \<rightharpoonup> nat"
    by (induction cs arbitrary: m') auto
  then show ?thesis by (auto simp: indexTree_def treeInstances_def)
qed

lemma dom_fold_indexTree:
  "dom (fold indexTree tis m) = dom m \<union> iref ` set (concat (map (\<lambda>ti. treeInstances (fst ti)) tis))"
  by (induction tis arbitrary: m) (auto simp: dom_indexTree)

lemma dom_buildBoxToTreeIndex:
  "dom (buildBoxToTreeIndex F) = iref ` set (concat (map treeInstances (trees F)))"
proof -
  have "concat (map (\<lambda>ti. treeInstances (fst ti)) (zip ts [0 ..< length ts]))
               = concat (map treeInstances ts)" for ts :: "Tree list"
  proof -
    have a: "map (\<lambda>ti. treeInstances (fst ti)) zs = map treeInstances (map fst zs)"
      for zs :: "(Tree \<times> nat) list"
      by (simp add: comp_def)
    have b: "map fst (zip ts [0 ..< length ts]) = ts"
      by (simp add: map_fst_zip)
    show ?thesis by (simp only: a b)
  qed
  then show ?thesis
    by (simp add: buildBoxToTreeIndex_def Let_def dom_fold_indexTree set_sortTreesVisually)
qed



lemma toBox_refs:
  "map boxRef (map (toBox i) (List.enumerate 0 cs)) = map (Ref i) [0 ..< length cs]"
proof -
  have a: "map boxRef (map (toBox i) xs) = map (Ref i) (map fst xs)" for xs
    by (induction xs) (simp_all add: toBox_def Let_def)
  show ?thesis unfolding a by simp
qed

lemma toBox_distinct: "distinct (map boxRef (map (toBox i) (List.enumerate 0 cs)))"
  unfolding toBox_refs by (simp add: distinct_map inj_on_def)

lemma created_refs:
  "iref ` set (concat (map treeInstances (trees (buildForest boxes cfg)))) \<subseteq> boxRef ` set boxes"
  if "distinct (map boxRef boxes)"
proof -
  have t: "iref ` set (treeCardsOf boxes cfg) \<subseteq> boxRef ` set boxes"
    unfolding treeCardsOf_def Let_def
    by (rule subset_trans [OF parsed_ref_set]) auto
  have c: "iref ` set (cardInstsOf boxes cfg) \<subseteq> boxRef ` set boxes"
    unfolding cardInstsOf_def Let_def
    by (rule subset_trans [OF parsed_ref_set]) auto
  from buildForest_instances(2) [OF that, of cfg] t c show ?thesis by blast
qed

section \<open>Group labels\<close>



















section \<open>Repeated invocations\<close>

text \<open>
  Two states of the scoring pass that differ in what earlier calls left behind: \<open>s\<close>
  belongs to the call on the empty heap, \<open>t\<close> to the call on a heap that holds \<open>k\<close>
  sets already. They have the same caches; on the references \<open>L\<close> of this call's
  instances the \<open>set\<close> properties agree up to the shift of the addresses by \<open>k\<close>, and the
  sets at corresponding addresses are equal.
\<close>

definition heapSim :: "ObjRef set \<Rightarrow> nat \<Rightarrow> ScoreState \<Rightarrow> ScoreState \<Rightarrow> bool" where
  "heapSim L k s t \<longleftrightarrow>
     mostWinnerCache t = mostWinnerCache s \<and> condByKeyStr t = condByKeyStr s
   \<and> (\<forall>r \<in> L. setOf t r = map_option (\<lambda>a. a + k) (setOf s r))
   \<and> (\<forall>r \<in> L. \<forall>a. setOf s r = Some a \<longrightarrow> a < length (heap s))
   \<and> length (heap t) = length (heap s) + k
   \<and> (\<forall>a < length (heap s). heap t ! (a + k) = heap s ! a)"

lemma heapSim_cache: "heapSim L k s t \<Longrightarrow> mostWinnerCache t = mostWinnerCache s"
  and heapSim_cond: "heapSim L k s t \<Longrightarrow> condByKeyStr t = condByKeyStr s"
  and heapSim_setOf: "heapSim L k s t \<Longrightarrow> r \<in> L \<Longrightarrow> setOf t r = map_option (\<lambda>a. a + k) (setOf s r)"
  and heapSim_valid: "heapSim L k s t \<Longrightarrow> r \<in> L \<Longrightarrow> setOf s r = Some a \<Longrightarrow> a < length (heap s)"
  and heapSim_length: "heapSim L k s t \<Longrightarrow> length (heap t) = length (heap s) + k"
  and heapSim_nth: "heapSim L k s t \<Longrightarrow> a < length (heap s) \<Longrightarrow> heap t ! (a + k) = heap s ! a"
  by (simp_all add: heapSim_def)

lemma find_shift:
  assumes "\<And>a. a \<in> set xs \<Longrightarrow> Q (a + k) = P a"
  shows "find Q (map (\<lambda>a. a + k) xs) = map_option (\<lambda>a. a + (k::nat)) (find P xs)"
  using assms by (induction xs) auto

lemma dedupStep_sim:
  assumes sim: "heapSim L k s t" and item: "iref item \<in> L"
      and valid: "\<forall>a \<in> set sets. a < length (heap s)"
  shows "fst (dedupStep item (map (\<lambda>a. a + k) sets, t))
           = map (\<lambda>a. a + k) (fst (dedupStep item (sets, s)))
       \<and> heapSim L k (snd (dedupStep item (sets, s))) (snd (dedupStep item (map (\<lambda>a. a + k) sets, t)))
       \<and> (\<forall>a \<in> set (fst (dedupStep item (sets, s))). a < length (heap (snd (dedupStep item (sets, s)))))"
proof -
  have f: "find (\<lambda>a. inst_id item \<notin> set (heap t ! a)) (map (\<lambda>a. a + k) sets)
             = map_option (\<lambda>a. a + k) (find (\<lambda>a. inst_id item \<notin> set (heap s ! a)) sets)"
    by (rule find_shift) (simp add: heapSim_nth [OF sim] valid)
  show ?thesis
  proof (cases "find (\<lambda>a. inst_id item \<notin> set (heap s ! a)) sets")
    case None
    have ds: "dedupStep item (sets, s) =
        (sets @ [length (heap s)],
         s\<lparr> setOf := (setOf s)(iref item \<mapsto> length (heap s)), heap := heap s @ [[inst_id item]] \<rparr>)"
      by (simp add: dedupStep_def Let_def None)
    have dt: "dedupStep item (map (\<lambda>a. a + k) sets, t) =
        (map (\<lambda>a. a + k) sets @ [length (heap s) + k],
         t\<lparr> setOf := (setOf t)(iref item \<mapsto> length (heap s) + k), heap := heap t @ [[inst_id item]] \<rparr>)"
      using f by (simp add: dedupStep_def Let_def None heapSim_length [OF sim])
    have "heapSim L k (s\<lparr> setOf := (setOf s)(iref item \<mapsto> length (heap s)), heap := heap s @ [[inst_id item]] \<rparr>)
            (t\<lparr> setOf := (setOf t)(iref item \<mapsto> length (heap s) + k), heap := heap t @ [[inst_id item]] \<rparr>)"
      using sim unfolding heapSim_def
      by (auto simp: nth_append less_Suc_eq)
    with valid show ?thesis unfolding ds dt by (auto simp: less_Suc_eq)
  next
    case (Some a)
    then have "a \<in> set sets" by (auto simp: find_Some_iff)
    with valid have a: "a < length (heap s)" by blast
    have ds: "dedupStep item (sets, s) =
        (sets, s\<lparr> setOf := (setOf s)(iref item \<mapsto> a),
                  heap := (heap s)[a := heap s ! a @ [inst_id item]] \<rparr>)"
      by (simp add: dedupStep_def Let_def Some)
    have dt: "dedupStep item (map (\<lambda>a. a + k) sets, t) =
        (map (\<lambda>a. a + k) sets, t\<lparr> setOf := (setOf t)(iref item \<mapsto> a + k),
                  heap := (heap t)[a + k := heap s ! a @ [inst_id item]] \<rparr>)"
      using f by (simp add: dedupStep_def Let_def Some heapSim_nth [OF sim a])
    have "heapSim L k (s\<lparr> setOf := (setOf s)(iref item \<mapsto> a),
                  heap := (heap s)[a := heap s ! a @ [inst_id item]] \<rparr>)
            (t\<lparr> setOf := (setOf t)(iref item \<mapsto> a + k),
                  heap := (heap t)[a + k := heap s ! a @ [inst_id item]] \<rparr>)"
      using sim a unfolding heapSim_def
      by (auto simp: nth_list_update)
    with valid show ?thesis unfolding ds dt by auto
  qed
qed

lemma fold_dedupStep_sim:
  "heapSim L k s t \<Longrightarrow> iref ` set items \<subseteq> L \<Longrightarrow> \<forall>a \<in> set sets. a < length (heap s) \<Longrightarrow>
   heapSim L k (snd (fold dedupStep items (sets, s)))
               (snd (fold dedupStep items (map (\<lambda>a. a + k) sets, t)))"
proof (induction items arbitrary: sets s t)
  case Nil
  then show ?case by simp
next
  case (Cons item items)
  from Cons.prems(2) have item: "iref item \<in> L" and items: "iref ` set items \<subseteq> L" by simp_all
  note d = dedupStep_sim [OF Cons.prems(1) item Cons.prems(3)]
  define r where "r = dedupStep item (sets, s)"
  define r' where "r' = dedupStep item (map (\<lambda>a. a + k) sets, t)"
  from d have f: "fst r' = map (\<lambda>a. a + k) (fst r)" and h: "heapSim L k (snd r) (snd r')"
    and v: "\<forall>a \<in> set (fst r). a < length (heap (snd r))"
    by (simp_all add: r_def r'_def)
  from Cons.IH [OF h items v]
  have "heapSim L k (snd (fold dedupStep items (fst r, snd r)))
                    (snd (fold dedupStep items (fst r', snd r')))"
    by (simp only: f)
  then show ?case by (simp add: r_def r'_def)
qed

lemma tableDedup_fst:
  "fst (tableDedup self matching st)
     = (case setOf (snd (tableDedup self matching st)) (iref self) of None \<Rightarrow> 0
        | Some a \<Rightarrow> length (heap (snd (tableDedup self matching st)) ! a))"
  by (simp add: tableDedup_def Let_def cong: option.case_cong)

lemma tableDedup_sim:
  assumes sim: "heapSim L k s t" and self: "iref self \<in> L" and items: "iref ` set matching \<subseteq> L"
  shows "fst (tableDedup self matching t) = fst (tableDedup self matching s)"
    and "heapSim L k (snd (tableDedup self matching s)) (snd (tableDedup self matching t))"
proof -
  define s' where "s' = snd (tableDedup self matching s)"
  define t' where "t' = snd (tableDedup self matching t)"
  have sim': "heapSim L k s' t'"
  proof (cases "setOf s (iref self)")
    case None
    then have nt: "setOf t (iref self) = None"
      by (simp add: heapSim_setOf [OF sim self])
    define s0 where "s0 = s\<lparr> setOf := (setOf s)(iref self \<mapsto> length (heap s)), heap := heap s @ [[]] \<rparr>"
    define t0 where "t0 = t\<lparr> setOf := (setOf t)(iref self \<mapsto> length (heap s) + k), heap := heap t @ [[]] \<rparr>"
    have h0: "heapSim L k s0 t0"
      using sim unfolding heapSim_def s0_def t0_def
      by (auto simp: nth_append less_Suc_eq)
    have v0: "\<forall>a \<in> set [length (heap s)]. a < length (heap s0)"
      by (simp add: s0_def)
    have es: "s' = snd (fold dedupStep matching ([length (heap s)], s0))"
      by (simp add: s'_def tableDedup_def Let_def None s0_def)
    have et: "t' = snd (fold dedupStep matching (map (\<lambda>a. a + k) [length (heap s)], t0))"
      by (simp add: t'_def tableDedup_def Let_def nt t0_def heapSim_length [OF sim])
    show ?thesis unfolding es et by (rule fold_dedupStep_sim [OF h0 items v0])
  next
    case (Some a)
    then have "setOf t (iref self) = Some (a + k)"
      by (simp add: heapSim_setOf [OF sim self])
    with Some have "s' = s" "t' = t"
      by (simp_all add: s'_def t'_def tableDedup_def Let_def)
    with sim show ?thesis by simp
  qed
  then show "heapSim L k (snd (tableDedup self matching s)) (snd (tableDedup self matching t))"
    by (simp only: s'_def t'_def)
  have fs: "fst (tableDedup self matching s)
              = (case setOf s' (iref self) of None \<Rightarrow> 0 | Some a \<Rightarrow> length (heap s' ! a))"
    unfolding s'_def by (rule tableDedup_fst)
  have ft: "fst (tableDedup self matching t)
              = (case setOf t' (iref self) of None \<Rightarrow> 0 | Some a \<Rightarrow> length (heap t' ! a))"
    unfolding t'_def by (rule tableDedup_fst)
  show "fst (tableDedup self matching t) = fst (tableDedup self matching s)"
  proof (cases "setOf s' (iref self)")
    case None
    then show ?thesis by (simp add: fs ft heapSim_setOf [OF sim' self])
  next
    case (Some a)
    from heapSim_valid [OF sim' self Some] have "heap t' ! (a + k) = heap s' ! a"
      by (rule heapSim_nth [OF sim'])
    with Some show ?thesis by (simp add: fs ft heapSim_setOf [OF sim' self])
  qed
qed

lemma getMostWinners_sim:
  assumes sim: "heapSim L k s t"
  shows "fst (getMostWinners pools key cond t) = fst (getMostWinners pools key cond s)"
    and "heapSim L k (snd (getMostWinners pools key cond s)) (snd (getMostWinners pools key cond t))"
  using sim
  by (auto simp: getMostWinners_def Let_def heapSim_def split: option.splits)

lemma mostResolverFor_sim:
  assumes sim: "heapSim L k s t"
  shows "fst (mostResolverFor pools i self cond t) = fst (mostResolverFor pools i self cond s)"
    and "heapSim L k (snd (mostResolverFor pools i self cond s)) (snd (mostResolverFor pools i self cond t))"
  using getMostWinners_sim [OF sim] sim
  by (simp_all add: mostResolverFor_def Let_def)

lemma filterCards_subset: "set (filterCards self pool cond) \<subseteq> set pool"
  by (simp add: filterCards_def Let_def)

definition placedIn_refs :: "ObjRef set \<Rightarrow> (ObjRef \<rightharpoonup> Placement) \<Rightarrow> bool" where
  "placedIn_refs L P \<longleftrightarrow> (\<forall>r p. P r = Some p \<longrightarrow> iref ` set (treeInstances (p_tree p)) \<subseteq> L)"

lemma poolFor_refs:
  assumes p: "poolFor self cond allInsts (P r) = Some pool"
      and a: "iref ` set allInsts \<subseteq> L" and pl: "placedIn_refs L P"
  shows "iref ` set pool \<subseteq> L"
proof -
  have t: "iref ` set (treeInstances (p_tree q)) \<subseteq> L" if "P r = Some q" for q
    using pl that unfolding placedIn_refs_def by blast
  have sl: "set (sideList tr side) \<subseteq> set (treeInstances tr)" for tr side
    by (cases side) (auto simp: sideList_def treeInstances_def)
  show ?thesis
  proof (cases "P r")
    case None
    with p a show ?thesis
      by (auto simp: poolFor_def split: if_splits)
  next
    case (Some q)
    note tq = t [OF Some]
    from p have "set pool \<subseteq> set (treeInstances (p_tree q)) \<union> set allInsts"
      by (auto simp: poolFor_def Some Let_def treeInstances_def sideList_def
               split: if_splits option.splits Side.splits)
    with tq a show ?thesis by blast
  qed
qed

lemma countMatches_sim:
  assumes sim: "heapSim L k s t" and self: "iref self \<in> L"
      and a: "iref ` set allInsts \<subseteq> L" and pl: "placedIn_refs L P"
  shows "fst (countMatches self cond allInsts P am (Some (mostResolverFor pools i)) t)
           = fst (countMatches self cond allInsts P am (Some (mostResolverFor pools i)) s)"
    and "heapSim L k (snd (countMatches self cond allInsts P am (Some (mostResolverFor pools i)) s))
                     (snd (countMatches self cond allInsts P am (Some (mostResolverFor pools i)) t))"
proof -
  define gs where "gs = (if most cond then mostResolverFor pools i self cond s else (True, s))"
  define gt where "gt = (if most cond then mostResolverFor pools i self cond t else (True, t))"
  have g1: "fst gt = fst gs" and g2: "heapSim L k (snd gs) (snd gt)"
    using mostResolverFor_sim [OF sim, of pools i self cond] sim
    by (simp_all add: gs_def gt_def)
  define tab where "tab \<longleftrightarrow> unique cond \<and>
                            (case defn self of None \<Rightarrow> False
                             | Some d \<Rightarrow> (case def_score d of None \<Rightarrow> False
                                          | Some sc \<Rightarrow> stype sc = ''table''))"
  have cs: "countMatches self cond allInsts P am (Some (mostResolverFor pools i)) s =
     (if \<not> fst gs then (0, snd gs)
      else if fullTree cond then
                ((case P (iref self) of None \<Rightarrow> 0
                  | Some p \<Rightarrow> if isFullTree (p_tree p) then 1 else 0), snd gs)
      else (case poolFor self cond allInsts (P (iref self)) of
                   None \<Rightarrow> (0, snd gs)
                 | Some pool \<Rightarrow>
                     if tab then tableDedup self (filterCards self pool cond) (snd gs)
                     else ((if unique cond then uniqueCount (filterCards self pool cond)
                            else length (filterCards self pool cond)), snd gs)))"
    by (cases "poolFor self cond allInsts (P (iref self))")
       (simp_all add: countMatches_def Let_def gs_def tab_def)
  have ct: "countMatches self cond allInsts P am (Some (mostResolverFor pools i)) t =
     (if \<not> fst gt then (0, snd gt)
      else if fullTree cond then
                ((case P (iref self) of None \<Rightarrow> 0
                  | Some p \<Rightarrow> if isFullTree (p_tree p) then 1 else 0), snd gt)
      else (case poolFor self cond allInsts (P (iref self)) of
                   None \<Rightarrow> (0, snd gt)
                 | Some pool \<Rightarrow>
                     if tab then tableDedup self (filterCards self pool cond) (snd gt)
                     else ((if unique cond then uniqueCount (filterCards self pool cond)
                            else length (filterCards self pool cond)), snd gt)))"
    by (cases "poolFor self cond allInsts (P (iref self))")
       (simp_all add: countMatches_def Let_def gt_def tab_def)
  have td: "fst (tableDedup self (filterCards self pool cond) (snd gt))
              = fst (tableDedup self (filterCards self pool cond) (snd gs))
          \<and> heapSim L k (snd (tableDedup self (filterCards self pool cond) (snd gs)))
                         (snd (tableDedup self (filterCards self pool cond) (snd gt)))"
    if "poolFor self cond allInsts (P (iref self)) = Some pool" for pool
  proof -
    from poolFor_refs [OF that a pl] filterCards_subset [of self pool cond]
    have "iref ` set (filterCards self pool cond) \<subseteq> L" by blast
    from tableDedup_sim [OF g2 self this] show ?thesis by blast
  qed
  show "fst (countMatches self cond allInsts P am (Some (mostResolverFor pools i)) t)
           = fst (countMatches self cond allInsts P am (Some (mostResolverFor pools i)) s)"
    unfolding cs ct using g1 td by (auto split: option.splits)
  show "heapSim L k (snd (countMatches self cond allInsts P am (Some (mostResolverFor pools i)) s))
                     (snd (countMatches self cond allInsts P am (Some (mostResolverFor pools i)) t))"
    unfolding cs ct using g1 g2 td by (auto split: option.splits)
qed

lemma scoreFixed_sim:
  assumes sim: "heapSim L k s t" and self: "iref self \<in> L"
      and a: "iref ` set allInsts \<subseteq> L" and pl: "placedIn_refs L P"
  shows "fst (scoreFixed rule self allInsts P am (Some (mostResolverFor pools i)) t)
           = fst (scoreFixed rule self allInsts P am (Some (mostResolverFor pools i)) s)
       \<and> heapSim L k (snd (scoreFixed rule self allInsts P am (Some (mostResolverFor pools i)) s))
                     (snd (scoreFixed rule self allInsts P am (Some (mostResolverFor pools i)) t))"
proof (cases "condition rule")
  case None
  with sim show ?thesis by (simp add: scoreFixed_def Let_def)
next
  case (Some c)
  from countMatches_sim [OF sim self a pl, of c am pools i] show ?thesis
    by (simp add: scoreFixed_def Let_def Some cong: option.case_cong if_cong)
qed

lemma scoreMultiplication_sim:
  assumes sim: "heapSim L k s t" and self: "iref self \<in> L"
      and a: "iref ` set allInsts \<subseteq> L" and pl: "placedIn_refs L P"
  shows "fst (scoreMultiplication rule self allInsts P am (Some (mostResolverFor pools i)) t)
           = fst (scoreMultiplication rule self allInsts P am (Some (mostResolverFor pools i)) s)
       \<and> heapSim L k (snd (scoreMultiplication rule self allInsts P am (Some (mostResolverFor pools i)) s))
                     (snd (scoreMultiplication rule self allInsts P am (Some (mostResolverFor pools i)) t))"
proof (cases "condition rule")
  case None
  with sim show ?thesis by (simp add: scoreMultiplication_def Let_def)
next
  case (Some c)
  from countMatches_sim [OF sim self a pl, of c am pools i] show ?thesis
    by (simp add: scoreMultiplication_def Let_def Some cong: option.case_cong if_cong)
qed

lemma scoreTable_sim:
  assumes sim: "heapSim L k s t" and self: "iref self \<in> L"
      and a: "iref ` set allInsts \<subseteq> L" and pl: "placedIn_refs L P"
  shows "fst (scoreTable rule self allInsts P am (Some (mostResolverFor pools i)) t)
           = fst (scoreTable rule self allInsts P am (Some (mostResolverFor pools i)) s)
       \<and> heapSim L k (snd (scoreTable rule self allInsts P am (Some (mostResolverFor pools i)) s))
                     (snd (scoreTable rule self allInsts P am (Some (mostResolverFor pools i)) t))"
proof (cases "condition rule")
  case None
  with sim show ?thesis by (simp add: scoreTable_def Let_def)
next
  case (Some c)
  from countMatches_sim [OF sim self a pl, of c am pools i] show ?thesis
    by (simp add: scoreTable_def Let_def Some cong: option.case_cong if_cong)
qed

lemma scoreInstanceWithReason_sim:
  assumes sim: "heapSim L k s t" and self: "iref self \<in> L"
      and a: "iref ` set allInsts \<subseteq> L" and pl: "placedIn_refs L P"
  shows "fst (scoreInstanceWithReason self allInsts P am (Some (mostResolverFor pools i)) t)
           = fst (scoreInstanceWithReason self allInsts P am (Some (mostResolverFor pools i)) s)
       \<and> heapSim L k (snd (scoreInstanceWithReason self allInsts P am (Some (mostResolverFor pools i)) s))
                     (snd (scoreInstanceWithReason self allInsts P am (Some (mostResolverFor pools i)) t))"
proof (cases "case defn self of None \<Rightarrow> None | Some d \<Rightarrow> def_score d")
  case None
  with sim show ?thesis by (simp add: scoreInstanceWithReason_def)
next
  case (Some rule)
  from scoreFixed_sim [OF sim self a pl, of rule am pools i]
    scoreMultiplication_sim [OF sim self a pl, of rule am pools i]
    scoreTable_sim [OF sim self a pl, of rule am pools i] sim
  show ?thesis
    by (simp add: scoreInstanceWithReason_def Some Let_def)
qed

lemma scoreStep_sim:
  assumes sim: "heapSim L k (snd acc) (snd acc')" and m: "fst acc' = fst acc"
      and self: "iref inst \<in> L" and a: "iref ` set allInsts \<subseteq> L" and pl: "placedIn_refs L P"
  shows "fst (scoreStep allInsts P (mostResolverFor pools i) inst acc')
           = fst (scoreStep allInsts P (mostResolverFor pools i) inst acc)
       \<and> heapSim L k (snd (scoreStep allInsts P (mostResolverFor pools i) inst acc))
                     (snd (scoreStep allInsts P (mostResolverFor pools i) inst acc'))"
  using scoreInstanceWithReason_sim [OF sim self a pl, of False pools i] m
  by (simp add: scoreStep_def Let_def)

lemma fold_scoreStep_sim:
  "heapSim L k (snd acc) (snd acc') \<Longrightarrow> fst acc' = fst acc \<Longrightarrow> iref ` set cs \<subseteq> L \<Longrightarrow>
   iref ` set allInsts \<subseteq> L \<Longrightarrow> placedIn_refs L P \<Longrightarrow>
   fst (fold (scoreStep allInsts P (mostResolverFor pools i)) cs acc')
     = fst (fold (scoreStep allInsts P (mostResolverFor pools i)) cs acc)
   \<and> heapSim L k (snd (fold (scoreStep allInsts P (mostResolverFor pools i)) cs acc))
                 (snd (fold (scoreStep allInsts P (mostResolverFor pools i)) cs acc'))"
proof (induction cs arbitrary: acc acc')
  case Nil
  then show ?case by simp
next
  case (Cons c cs)
  from Cons.prems(3) have c: "iref c \<in> L" and cs: "iref ` set cs \<subseteq> L" by simp_all
  note st = scoreStep_sim [OF Cons.prems(1,2) c Cons.prems(4,5), of pools i]
  from Cons.IH [OF conjunct2 [OF st] conjunct1 [OF st] cs Cons.prems(4,5)]
  show ?case by simp
qed

lemma scoreAll_sim:
  assumes sim: "heapSim L k s t" and a: "iref ` set allInsts \<subseteq> L" and pl: "placedIn_refs L P"
  shows "fst (scoreAll allInsts P (mostResolverFor pools i) t)
           = fst (scoreAll allInsts P (mostResolverFor pools i) s)
       \<and> heapSim L k (snd (scoreAll allInsts P (mostResolverFor pools i) s))
                     (snd (scoreAll allInsts P (mostResolverFor pools i) t))"
  unfolding scoreAll_fold
  by (rule fold_scoreStep_sim) (simp_all add: sim a pl)

lemma setIfAbsent_trees:
  "(\<forall>r p. m r = Some p \<longrightarrow> p_tree p \<in> S) \<Longrightarrow> p_tree v \<in> S \<Longrightarrow>
   (\<forall>r p. setIfAbsent m k v r = Some p \<longrightarrow> p_tree p \<in> S)"
  by (auto simp: setIfAbsent_def)

lemma placeSide_trees:
  "(\<forall>r p. m r = Some p \<longrightarrow> p_tree p \<in> S) \<Longrightarrow> tree \<in> S \<Longrightarrow>
   (\<forall>r p. placeSide tree side cs m r = Some p \<longrightarrow> p_tree p \<in> S)"
proof (induction cs arbitrary: m)
  case Nil
  then show ?case by (simp add: placeSide_def)
next
  case (Cons c cs)
  have "\<forall>r p. setIfAbsent m (iref c) \<lparr> p_tree = tree, p_side = Some side \<rparr> r = Some p \<longrightarrow> p_tree p \<in> S"
    by (rule setIfAbsent_trees [OF Cons.prems(1)]) (simp add: Cons.prems(2))
  from Cons.IH [OF this Cons.prems(2)] show ?case by (simp add: placeSide_def)
qed

lemma placeTree_trees:
  assumes "\<forall>r p. m r = Some p \<longrightarrow> p_tree p \<in> S" and "tree \<in> S"
  shows "\<forall>r p. placeTree tree m r = Some p \<longrightarrow> p_tree p \<in> S"
  unfolding placeTree_def
  by (intro placeSide_trees setIfAbsent_trees assms) (simp add: assms(2))

lemma fold_placeTree_trees:
  "(\<forall>r p. m r = Some p \<longrightarrow> p_tree p \<in> S) \<Longrightarrow> set ts \<subseteq> S \<Longrightarrow>
   (\<forall>r p. fold placeTree ts m r = Some p \<longrightarrow> p_tree p \<in> S)"
proof (induction ts arbitrary: m)
  case Nil
  then show ?case by simp
next
  case (Cons t ts)
  from Cons.prems(2) have t: "t \<in> S" and ts: "set ts \<subseteq> S" by simp_all
  from Cons.IH [OF placeTree_trees [OF Cons.prems(1) t] ts] show ?case by simp
qed

lemma placements_refs:
  assumes "iref ` set (concat (map treeInstances (trees F))) \<subseteq> L"
  shows "placedIn_refs L (buildPlacementsByBox F)"
proof -
  have tr: "\<forall>r p. buildPlacementsByBox F r = Some p \<longrightarrow> p_tree p \<in> set (trees F)"
    unfolding buildPlacementsByBox_def by (rule fold_placeTree_trees) simp_all
  show ?thesis
    unfolding placedIn_refs_def
  proof (intro allI impI)
    fix r p assume "buildPlacementsByBox F r = Some p"
    with tr have "p_tree p \<in> set (trees F)" by blast
    then have "set (treeInstances (p_tree p)) \<subseteq> set (concat (map treeInstances (trees F)))"
      by auto
    with assms show "iref ` set (treeInstances (p_tree p)) \<subseteq> L" by blast
  qed
qed

definition playerIn :: "ObjRef set \<Rightarrow> PreparedPlayer \<Rightarrow> bool" where
  "playerIn L p \<longleftrightarrow>
     (\<forall>F. pp_forest p = Some F \<longrightarrow>
        iref ` set (pp_all p) \<subseteq> L \<and> placedIn_refs L (buildPlacementsByBox F))"

lemma scorePlayer_sim:
  assumes sim: "heapSim L k s t" and p: "playerIn L p"
  shows "fst (scorePlayer pools players i p t) = fst (scorePlayer pools players i p s)
       \<and> heapSim L k (snd (scorePlayer pools players i p s)) (snd (scorePlayer pools players i p t))"
proof (cases "pp_forest p")
  case None
  with sim show ?thesis by (simp add: scorePlayer_def Let_def)
next
  case (Some F)
  with p have a: "iref ` set (pp_all p) \<subseteq> L" and pl: "placedIn_refs L (buildPlacementsByBox F)"
    by (simp_all add: playerIn_def)
  from scoreAll_sim [OF sim a pl, of pools i] sim show ?thesis
    by (simp add: scorePlayer_def Let_def Some)
qed

lemma scorePlayersOn_results:
  "fst (scorePlayersOn pools players ips st) = scorePlayers pools players ips st"
  by (induction ips arbitrary: st) (simp_all add: Let_def)

lemma scorePlayersOn_sim:
  "heapSim L k s t \<Longrightarrow> \<forall>ip \<in> set ips. playerIn L (snd ip) \<Longrightarrow>
   fst (scorePlayersOn pools players ips t) = fst (scorePlayersOn pools players ips s)
   \<and> heapSim L k (snd (scorePlayersOn pools players ips s)) (snd (scorePlayersOn pools players ips t))"
proof (induction ips arbitrary: s t)
  case Nil
  then show ?case by simp
next
  case (Cons ip ips)
  from Cons.prems(2) have p: "playerIn L (snd ip)" and ps: "\<forall>ip \<in> set ips. playerIn L (snd ip)"
    by simp_all
  note sp = scorePlayer_sim [OF Cons.prems(1) p, of pools players "fst ip"]
  from Cons.IH [OF conjunct2 [OF sp] ps] conjunct1 [OF sp]
  show ?case by (simp add: Let_def)
qed

lemma created_boxes:
  assumes "i < length players"
  shows "boxRef ` set (map (toBox i) (List.enumerate 0 (pcards (players ! i)))) \<subseteq> set (createdRefs players)"
proof -
  define g where "g = (\<lambda>ip :: nat \<times> PlayerInput.
      map boxRef (map (toBox (fst ip)) (List.enumerate 0 (pcards (snd ip)))))"
  from assms have "(i, players ! i) \<in> set (List.enumerate 0 players)"
    by (simp add: in_set_enumerate_eq)
  then have "g (i, players ! i) \<in> set (map g (List.enumerate 0 players))"
    by simp
  then have "set (g (i, players ! i)) \<subseteq> set (concat (map g (List.enumerate 0 players)))"
    by auto
  then show ?thesis by (simp add: createdRefs_def g_def image_image)
qed

lemma prepared_in:
  assumes "i < length players"
  shows "playerIn (set (createdRefs players)) (prepare cfg (i, players ! i))"
proof (cases "pcards (players ! i) = []")
  case True
  then show ?thesis by (simp add: playerIn_def prepare_def)
next
  case False
  define boxes where "boxes = map (toBox i) (List.enumerate 0 (pcards (players ! i)))"
  define F where "F = buildForest boxes cfg"
  have d: "distinct (map boxRef boxes)" unfolding boxes_def by (rule toBox_distinct)
  have pf: "pp_forest (prepare cfg (i, players ! i)) = Some F"
    and pa: "pp_all (prepare cfg (i, players ! i)) = allCardInstances F"
    using False by (simp_all add: prepare_def Let_def F_def boxes_def)
  have refs: "iref ` set (concat (map treeInstances (trees F))) \<subseteq> set (createdRefs players)"
    unfolding F_def
    by (rule subset_trans [OF created_refs [OF d]]) (simp only: boxes_def created_boxes [OF assms])
  have "allCardInstances F = concat (map treeInstances (trees F))"
    unfolding F_def by (rule allCardInstances_concat [OF buildForest_instances(1) [OF d]])
  with refs have a: "iref ` set (pp_all (prepare cfg (i, players ! i))) \<subseteq> set (createdRefs players)"
    by (simp only: pa)
  from a placements_refs [OF refs] show ?thesis
    by (simp add: playerIn_def pf)
qed

lemma scoreOnHeap_fresh: "fst (scoreOnHeap cfg players st) = score cfg players"
proof -
  define prepared where "prepared = map (prepare cfg) (List.enumerate 0 players)"
  define ips where "ips = List.enumerate 0 prepared"
  define st2 where "st2 = st\<lparr> setOf := (\<lambda>r. if r \<in> set (createdRefs players) then None else setOf st r),
                              mostWinnerCache := Map.empty, condByKeyStr := Map.empty \<rparr>"
  have sim: "heapSim (set (createdRefs players)) (length (heap st)) emptyState st2"
    by (simp add: heapSim_def emptyState_def st2_def)
  have ins: "\<forall>ip \<in> set ips. playerIn (set (createdRefs players)) (snd ip)"
  proof
    fix ip assume "ip \<in> set ips"
    then have i: "fst ip < length players" and ip: "snd ip = prepare cfg (fst ip, players ! fst ip)"
      by (auto simp: ips_def prepared_def in_set_enumerate_eq nth_enumerate_eq)
    from prepared_in [OF i, of cfg] show "playerIn (set (createdRefs players)) (snd ip)"
      by (simp add: ip)
  qed
  have "fst (scoreOnHeap cfg players st) = fst (scorePlayersOn (map pp_all prepared) players ips st2)"
    by (simp add: scoreOnHeap_def Let_def prepared_def ips_def st2_def)
  also have "\<dots> = fst (scorePlayersOn (map pp_all prepared) players ips emptyState)"
    by (rule conjunct1 [OF scorePlayersOn_sim [OF sim ins]])
  also have "\<dots> = score cfg players"
    by (simp add: scorePlayersOn_results score_def Let_def prepared_def ips_def)
  finally show ?thesis .
qed

lemma runCalls_config: "CARDS_JSON (snd (runCalls calls ms)) = CARDS_JSON ms"
  by (induction calls arbitrary: ms) (simp_all add: Let_def scoreCall_def)

lemma runCalls_results: "fst (runCalls calls ms) = map (score (CARDS_JSON ms)) calls"
  by (induction calls arbitrary: ms) (simp_all add: Let_def scoreCall_def scoreOnHeap_fresh)

text \<open>
  C9. In a sequence of calls of \<open>score\<close> in one process, each call working on the heap
  the calls before it left, two calls on the same player collection return the same
  results: names, totals, and card entries with their points, explanation strings and
  group labels. Every call returns what the call on the empty heap returns, whatever the
  cache maps and the sets of the table dedup of earlier calls hold, because it builds its
  own; and no call changes the configuration.
\<close>

theorem score_rerun_identical:
  "CARDS_JSON (snd (runCalls calls ms)) = CARDS_JSON ms
   \<and> (\<forall>i j. i < length calls \<and> j < length calls \<and> calls ! i = calls ! j \<longrightarrow>
          fst (runCalls calls ms) ! i = fst (runCalls calls ms) ! j)
   \<and> (\<forall>i < length calls.
          fst (runCalls calls ms) ! i = fst (scoreOnHeap (CARDS_JSON ms) (calls ! i) emptyState))
   \<and> fst (scoreOnHeap cfg players st) = fst (scoreOnHeap cfg players emptyState)
   \<and> fst (scoreOnHeap cfg players st) = score cfg players"
  by (simp add: runCalls_config runCalls_results scoreOnHeap_fresh)

lemma exHeap_score:
  "map (\<lambda>r. (res_name r, totalScore r, map (\<lambda>d. (det_cardId d, points d, group d)) (cardDetails r)))
     (score exHeapCards [exAnna, exBen])
   = [(''Anna'', 1, [(''linde:linde'', 0, Some ''Baum 1''), (''moth:linde'', 1, Some ''Baum 1'')]),
      (''Ben'', 6, [(''linde:linde'', 3, Some ''Baum 1''), (''linde:linde'', 3, Some ''Baum 2'')])]"
  by code_simp

lemma exHeap_left:
  "heap (snd (scoreOnHeap exHeapCards [exAnna, exBen] emptyState)) = [[''moth'']]
   \<and> mostWinnerCache (snd (scoreOnHeap exHeapCards [exAnna, exBen] emptyState)) ''||false|'' = Some (2, [1])
   \<and> setOf (snd (scoreOnHeap exHeapCards [exAnna, exBen] emptyState)) (Ref 0 1) = Some 0"
  by code_simp

theorem score_rerun_identical_witness:
  "(0::nat) < length [[exAnna, exBen], [exBen], [exAnna, exBen]]
   \<and> (2::nat) < length [[exAnna, exBen], [exBen], [exAnna, exBen]]
   \<and> [[exAnna, exBen], [exBen], [exAnna, exBen]] ! 0 = [[exAnna, exBen], [exBen], [exAnna, exBen]] ! 2
   \<and> fst (runCalls [[exAnna, exBen], [exBen], [exAnna, exBen]] exProcess) ! 0
        = fst (runCalls [[exAnna, exBen], [exBen], [exAnna, exBen]] exProcess) ! 2
   \<and> map (\<lambda>r. (res_name r, totalScore r, map (\<lambda>d. (det_cardId d, points d, group d)) (cardDetails r)))
        (fst (runCalls [[exAnna, exBen], [exBen], [exAnna, exBen]] exProcess) ! 2)
      = [(''Anna'', 1, [(''linde:linde'', 0, Some ''Baum 1''), (''moth:linde'', 1, Some ''Baum 1'')]),
         (''Ben'', 6, [(''linde:linde'', 3, Some ''Baum 1''), (''linde:linde'', 3, Some ''Baum 2'')])]
   \<and> heap (snd (scoreOnHeap exHeapCards [exAnna, exBen] emptyState)) = [[''moth'']]
   \<and> mostWinnerCache (snd (scoreOnHeap exHeapCards [exAnna, exBen] emptyState)) ''||false|'' = Some (2, [1])"
proof -
  have h: "(0::nat) < length [[exAnna, exBen], [exBen], [exAnna, exBen]]
      \<and> (2::nat) < length [[exAnna, exBen], [exBen], [exAnna, exBen]]
      \<and> [[exAnna, exBen], [exBen], [exAnna, exBen]] ! 0 = [[exAnna, exBen], [exBen], [exAnna, exBen]] ! 2"
    by simp
  note t = score_rerun_identical [of "[[exAnna, exBen], [exBen], [exAnna, exBen]]" exProcess
      exHeapCards "[exAnna, exBen]" emptyState]
  from t h have e: "fst (runCalls [[exAnna, exBen], [exBen], [exAnna, exBen]] exProcess) ! 0
        = fst (runCalls [[exAnna, exBen], [exBen], [exAnna, exBen]] exProcess) ! 2"
    by blast
  from t have "fst (runCalls [[exAnna, exBen], [exBen], [exAnna, exBen]] exProcess) ! 2
        = fst (scoreOnHeap (CARDS_JSON exProcess) ([[exAnna, exBen], [exBen], [exAnna, exBen]] ! 2) emptyState)"
    by simp
  also have "\<dots> = score exHeapCards [exAnna, exBen]"
    using t by (simp add: exProcess_def)
  finally have v: "fst (runCalls [[exAnna, exBen], [exBen], [exAnna, exBen]] exProcess) ! 2
        = score exHeapCards [exAnna, exBen]" .
  from h e exHeap_score exHeap_left show ?thesis
    unfolding v by simp
qed

end
